theory Spec2Isabelle
  imports Complex_Main "HOL-Library.Sublist" "HOL-Library.Word"
begin

section \<open>Strings and numbers of the host language\<close>

text \<open>
  Strings are byte strings. \<open>toLowerCase\<close> lowers the ASCII letters A-Z and leaves every
  other byte as it is; \<open>str_includes\<close> is \<open>String.prototype.includes\<close>: the pattern occurs
  as a contiguous substring.
\<close>

definition lower_char :: "char \<Rightarrow> char" where
  "lower_char c =
     (let n = (of_char c :: nat) in if 65 \<le> n \<and> n \<le> 90 then char_of (n + 32) else c)"

definition toLowerCase :: "string \<Rightarrow> string" where
  "toLowerCase s = map lower_char s"

fun str_includes :: "string \<Rightarrow> string \<Rightarrow> bool" where
  "str_includes [] p = (p = [])"
| "str_includes (c # cs) p = (prefix p (c # cs) \<or> str_includes cs p)"

text \<open>
  A JavaScript number is an IEEE-754 double. Finite values are carried as rationals, the
  three non-finite values are constructors. The two rounding operations the code uses on
  non-integers, \<open>/\<close> and \<open>*\<close>, are parameters (\<open>fdiv\<close>, \<open>fmul\<close>): the theorems below
  hold for every pair of operations within the relative error of a double, hence for the
  exact operations too. Overflow of a finite quotient or product is not modelled (all
  operands are pixel counts).
\<close>

datatype jsnum = Num rat | PosInf | NegInf | NaN

record fp_ops =
  fdiv :: "rat \<Rightarrow> rat \<Rightarrow> rat"
  fmul :: "rat \<Rightarrow> rat \<Rightarrow> rat"

definition exact_ops :: fp_ops where
  "exact_ops = \<lparr> fdiv = (\<lambda>a b. a / b), fmul = (\<lambda>a b. a * b) \<rparr>"

text \<open>
  The standard model of the arithmetic of doubles: a quotient or product whose exact
  value is zero or of moderate size is returned with a relative error of at most
  \<open>2\<^sup>-\<^sup>5\<^sup>3\<close> (round to nearest; no overflow and no underflow in that range).
  The exact operations satisfy it.
\<close>

definition moderate :: "rat \<Rightarrow> bool" where
  "moderate x \<longleftrightarrow> x = 0 \<or> (1 / 2 ^ 64 \<le> \<bar>x\<bar> \<and> \<bar>x\<bar> \<le> 2 ^ 64)"

definition fp_accurate :: "fp_ops \<Rightarrow> bool" where
  "fp_accurate fp \<longleftrightarrow>
     (\<forall>a b. b \<noteq> 0 \<and> moderate (a / b) \<longrightarrow> \<bar>fdiv fp a b - a / b\<bar> \<le> \<bar>a / b\<bar> / 2 ^ 53) \<and>
     (\<forall>a b. moderate (a * b) \<longrightarrow> \<bar>fmul fp a b - a * b\<bar> \<le> \<bar>a * b\<bar> / 2 ^ 53)"

text \<open>\<open>a / b\<close> for two integers: division by zero gives an infinity or NaN.\<close>

definition js_div :: "fp_ops \<Rightarrow> int \<Rightarrow> int \<Rightarrow> jsnum" where
  "js_div fp a b =
     (if b = 0 then (if 0 < a then PosInf else if a < 0 then NegInf else NaN)
      else Num (fdiv fp (of_int a) (of_int b)))"

text \<open>\<open>Math.min\<close> of two numbers: NaN when either is NaN.\<close>

fun js_min :: "jsnum \<Rightarrow> jsnum \<Rightarrow> jsnum" where
  "js_min NaN _ = NaN"
| "js_min _ NaN = NaN"
| "js_min NegInf _ = NegInf"
| "js_min _ NegInf = NegInf"
| "js_min PosInf y = y"
| "js_min x PosInf = x"
| "js_min (Num x) (Num y) = Num (min x y)"

text \<open>\<open>w * s\<close> for an integer \<open>w\<close>: zero times an infinity is NaN.\<close>

fun js_mul :: "fp_ops \<Rightarrow> int \<Rightarrow> jsnum \<Rightarrow> jsnum" where
  "js_mul fp w (Num s) = Num (fmul fp (of_int w) s)"
| "js_mul fp w PosInf = (if 0 < w then PosInf else if w < 0 then NegInf else NaN)"
| "js_mul fp w NegInf = (if 0 < w then NegInf else if w < 0 then PosInf else NaN)"
| "js_mul fp w NaN = NaN"

text \<open>\<open>Math.round\<close>: the nearest integer, a tie going up.\<close>

fun js_round :: "jsnum \<Rightarrow> jsnum" where
  "js_round (Num x) = Num (of_int \<lfloor>x + 1 / 2\<rfloor>)"
| "js_round v = v"

section \<open>The compression service (services/compression.ts)\<close>

type_synonym bytes = "8 word list"

record CompressionOptions =
  opt_quality :: "int option"
  opt_maxWidth :: "int option"
  opt_maxHeight :: "int option"
  opt_preserveAnimation :: "bool option"
  opt_generateWebp :: "bool option"
  opt_generateAvif :: "bool option"

text \<open>\<open>Required<CompressionOptions>\<close>: the options after the defaults are merged in.\<close>

record RequiredOptions =
  quality :: int
  maxWidth :: int
  maxHeight :: int
  preserveAnimation :: bool
  generateWebp :: bool
  generateAvif :: bool

definition DEFAULT_OPTIONS :: RequiredOptions where
  "DEFAULT_OPTIONS = \<lparr> quality = 90, maxWidth = 3840, maxHeight = 3840,
     preserveAnimation = True, generateWebp = True, generateAvif = True \<rparr>"

text \<open>\<open>{ ...defaults, ...options }\<close>: a field the options give replaces the default.\<close>

definition merge_options :: "RequiredOptions \<Rightarrow> CompressionOptions \<Rightarrow> RequiredOptions" where
  "merge_options d options = \<lparr>
     quality = (case opt_quality options of Some v \<Rightarrow> v | None \<Rightarrow> quality d),
     maxWidth = (case opt_maxWidth options of Some v \<Rightarrow> v | None \<Rightarrow> maxWidth d),
     maxHeight = (case opt_maxHeight options of Some v \<Rightarrow> v | None \<Rightarrow> maxHeight d),
     preserveAnimation =
       (case opt_preserveAnimation options of Some v \<Rightarrow> v | None \<Rightarrow> preserveAnimation d),
     generateWebp = (case opt_generateWebp options of Some v \<Rightarrow> v | None \<Rightarrow> generateWebp d),
     generateAvif = (case opt_generateAvif options of Some v \<Rightarrow> v | None \<Rightarrow> generateAvif d) \<rparr>"

definition no_options :: CompressionOptions where
  "no_options = \<lparr> opt_quality = None, opt_maxWidth = None, opt_maxHeight = None,
     opt_preserveAnimation = None, opt_generateWebp = None, opt_generateAvif = None \<rparr>"

record CompressedImage =
  data :: bytes
  contentType :: string
  size :: nat

record CompressionResult =
  original :: bytes
  isAnimated :: bool
  webp :: "CompressedImage option"
  avif :: "CompressedImage option"

subsection \<open>Retrying a transform\<close>

text \<open>An error is carried as its message.\<close>

definition isRetryableTransformError :: "string \<Rightarrow> bool" where
  "isRetryableTransformError message =
     (let lower = toLowerCase message in
        str_includes lower ''network connection lost'' \<or>
        str_includes lower ''connection lost'' \<or>
        str_includes lower ''fetch failed'' \<or>
        str_includes lower ''timeout'' \<or>
        str_includes lower ''timed out'' \<or>
        str_includes lower ''econnreset'' \<or>
        str_includes lower ''eai_again'' \<or>
        str_includes lower ''temporar'')"

text \<open>
  What one run of \<open>withRetry\<close> does, in order: a call of \<open>fn\<close> (numbered by the attempt)
  or a sleep of so many milliseconds.
\<close>

datatype retry_event = Attempt nat | Sleep nat

text \<open>
  The loop of \<open>withRetry\<close>. \<open>fn k\<close> is what the \<open>k\<close>-th call of the wrapped function does:
  \<open>Inl\<close> the thrown error, \<open>Inr\<close> the value. The result is the trace and what \<open>withRetry\<close>
  throws or returns. When the loop ends without a call (no attempt allowed), the last
  error is still undefined and the error thrown has the message \<open>undefined\<close>.
\<close>

function withRetry_loop ::
  "(nat \<Rightarrow> string + 'a) \<Rightarrow> nat \<Rightarrow> nat \<Rightarrow> string option \<Rightarrow> nat
     \<Rightarrow> retry_event list \<times> (string + 'a)" where
  "withRetry_loop fn attempts baseDelayMs lastError attempt =
     (if attempt \<le> attempts then
        (case fn attempt of
           Inr v \<Rightarrow> ([Attempt attempt], Inr v)
         | Inl err \<Rightarrow>
             if attempt \<ge> attempts \<or> \<not> isRetryableTransformError err
             then ([Attempt attempt], Inl err)
             else
               (let delayMs = baseDelayMs * 2 ^ (attempt - 1);
                    (tr, r) = withRetry_loop fn attempts baseDelayMs (Some err) (attempt + 1)
                in (Attempt attempt # Sleep delayMs # tr, r)))
      else ([], Inl (case lastError of Some e \<Rightarrow> e | None \<Rightarrow> ''undefined'')))"
  by pat_completeness auto
termination
  by (relation "measure (\<lambda>(fn, attempts, baseDelayMs, lastError, attempt). Suc attempts - attempt)")
    auto

declare withRetry_loop.simps [simp del]

text \<open>\<open>options?.attempts ?? 3\<close> and \<open>options?.baseDelayMs ?? 120\<close>.\<close>

definition withRetry ::
  "(nat \<Rightarrow> string + 'a) \<Rightarrow> nat option \<Rightarrow> nat option \<Rightarrow> retry_event list \<times> (string + 'a)" where
  "withRetry fn attempts baseDelayMs =
     withRetry_loop fn (case attempts of Some a \<Rightarrow> a | None \<Rightarrow> 3)
       (case baseDelayMs of Some b \<Rightarrow> b | None \<Rightarrow> 120) None 1"

subsection \<open>Target dimensions and animation\<close>

record Dimensions =
  width :: jsnum
  height :: jsnum

definition calculateDimensions :: "fp_ops \<Rightarrow> int \<Rightarrow> int \<Rightarrow> int \<Rightarrow> int \<Rightarrow> Dimensions" where
  "calculateDimensions fp w h maxW maxH =
     (if w \<le> maxW \<and> h \<le> maxH then \<lparr> width = Num (of_int w), height = Num (of_int h) \<rparr>
      else
        (let scale = js_min (js_div fp maxW w) (js_div fp maxH h)
         in \<lparr> width = js_round (js_mul fp w scale), height = js_round (js_mul fp h scale) \<rparr>))"

text \<open>
  The scan of \<open>isAnimatedGif\<close>: the list is the bytes from index \<open>i\<close> on, and the loop
  runs while \<open>i < length - 1\<close>, that is while two bytes are left.
\<close>

fun isAnimatedGif_scan :: "nat \<Rightarrow> bytes \<Rightarrow> bool" where
  "isAnimatedGif_scan frameCount (b0 # b1 # rest) =
     (let gce = (b0 = 0x21 \<and> b1 = 0xF9);
          fc1 = (if gce then frameCount + 1 else frameCount)
      in if gce \<and> fc1 > 1 then True
         else
           (let fc2 = (if b0 = 0x2C then fc1 + 1 else fc1)
            in if b0 = 0x2C \<and> fc2 > 1 then True
               else isAnimatedGif_scan fc2 (b1 # rest)))"
| "isAnimatedGif_scan frameCount _ = False"

definition isAnimatedGif :: "bytes \<Rightarrow> bool" where
  "isAnimatedGif bytes = isAnimatedGif_scan 0 bytes"

subsection \<open>compress\<close>

text \<open>The output format of a transform: \<open>image/webp\<close> or \<open>image/avif\<close>.\<close>

datatype variant = WebP | AVIF

text \<open>
  What \<open>compress\<close> needs from outside: the arithmetic of numbers, the image decoder
  (\<open>ImageProcessor.getImageDimensions\<close>) and the Images binding behind
  \<open>compressToFormat\<close>. \<open>compressToFormat env data format quality dims k\<close> is what the
  \<open>k\<close>-th call for that format does: \<open>Inl\<close> the thrown error, \<open>Inr\<close> the compressed
  image.
\<close>

record compress_env =
  arith :: fp_ops
  getImageDimensions :: "bytes \<Rightarrow> string + (int \<times> int)"
  compressToFormat :: "bytes \<Rightarrow> variant \<Rightarrow> int \<Rightarrow> Dimensions \<Rightarrow> nat \<Rightarrow> string + CompressedImage"

text \<open>
  The trace of \<open>compress\<close>: each call of \<open>compressToFormat\<close> with its format, quality,
  dimensions and attempt number, and each sleep between two attempts.
\<close>

datatype compress_event = Transform variant int Dimensions nat | Wait variant nat

definition tag_events :: "variant \<Rightarrow> int \<Rightarrow> Dimensions \<Rightarrow> retry_event list \<Rightarrow> compress_event list" where
  "tag_events v q d tr =
     map (\<lambda>e. case e of Attempt k \<Rightarrow> Transform v q d k | Sleep ms \<Rightarrow> Wait v ms) tr"

text \<open>\<open>withRetry(...).catch(() => null)\<close>: an error thrown by the retries becomes null.\<close>

definition catch_null :: "retry_event list \<times> (string + 'a) \<Rightarrow> retry_event list \<times> 'a option" where
  "catch_null p = (case snd p of Inr v \<Rightarrow> (fst p, Some v) | Inl e \<Rightarrow> (fst p, None))"

definition compress ::
  "compress_env \<Rightarrow> bytes \<Rightarrow> string \<Rightarrow> CompressionOptions
     \<Rightarrow> compress_event list \<times> (string + CompressionResult)" where
  "compress env bs format options =
     (let opts = merge_options DEFAULT_OPTIONS options;
          animated = (format = ''gif'' \<and> isAnimatedGif bs)
      in if animated \<and> preserveAnimation opts
         then ([], Inr \<lparr> original = bs, isAnimated = True, webp = None, avif = None \<rparr>)
         else
           (case getImageDimensions env bs of
              Inl e \<Rightarrow> ([], Inl e)
            | Inr (w, h) \<Rightarrow>
                (let targetDims =
                       calculateDimensions (arith env) w h (maxWidth opts) (maxHeight opts);
                     avifDims =
                       calculateDimensions (arith env) w h
                         (min (maxWidth opts) 1600) (min (maxHeight opts) 1600);
                     webpResult =
                       (if generateWebp opts
                        then catch_null
                          (withRetry (compressToFormat env bs WebP (quality opts) targetDims)
                             (Some 2) None)
                        else ([], None));
                     avifResult =
                       (if generateAvif opts
                        then catch_null
                          (withRetry (compressToFormat env bs AVIF (quality opts) avifDims)
                             (Some 3) None)
                        else ([], None))
                 in (tag_events WebP (quality opts) targetDims (fst webpResult) @
                     tag_events AVIF (quality opts) avifDims (fst avifResult),
                     Inr \<lparr> original = bs, isAnimated = False,
                           webp = snd webpResult, avif = snd avifResult \<rparr>))))"

section \<open>Image records\<close>

record Paths =
  paths_original :: string
  paths_webp :: string
  paths_avif :: string

record Sizes =
  sizes_original :: nat
  sizes_webp :: nat
  sizes_avif :: nat

text \<open>\<open>ImageMetadata\<close>; an absent \<open>expiryTime\<close> is \<open>None\<close>.\<close>

record ImageMetadata =
  img_id :: string
  img_originalName :: string
  img_uploadTime :: string
  img_expiryTime :: "string option"
  img_orientation :: string
  img_tags :: "string list"
  img_format :: string
  img_width :: int
  img_height :: int
  img_paths :: Paths
  img_sizes :: Sizes

section \<open>The upload handler (handlers/upload.ts)\<close>

record File =
  file_name :: string
  file_bytes :: bytes

text \<open>What \<open>ImageProcessor.getImageInfo\<close> returns.\<close>

record ImageInfo =
  info_format :: string
  info_width :: int
  info_height :: int
  info_orientation :: string

text \<open>
  What the handler needs from outside. \<open>storage_upload key body contentType\<close> tells
  whether the write resolves (\<open>True\<close>) or throws; \<open>compression\<close> is the compression
  service, absent when the Images binding is; \<open>saveImage\<close> tells whether the metadata
  batch commits; \<open>clock_expiry\<close> and \<open>clock_upload\<close> are the two readings of the clock
  in milliseconds; \<open>toISOString t\<close> is \<open>new Date(t).toISOString()\<close>, which throws a
  RangeError (\<open>None\<close>) when \<open>t\<close> is outside the range of a Date. StorageService,
  ImageProcessor, generateImageId and the metadata write are collaborators of the handler
  and enter as these fields.
\<close>

record upload_env =
  getImageInfo :: "bytes \<Rightarrow> string + ImageInfo"
  isSupportedFormat :: "string \<Rightarrow> bool"
  getContentType :: "string \<Rightarrow> string"
  generateImageId :: string
  generatePaths :: "string \<Rightarrow> string \<Rightarrow> string \<Rightarrow> Paths"
  storage_upload :: "string \<Rightarrow> bytes \<Rightarrow> string \<Rightarrow> bool"
  compression :: "compress_env option"
  saveImage :: "ImageMetadata \<Rightarrow> bool"
  clock_expiry :: int
  clock_upload :: int
  toISOString :: "int \<Rightarrow> string option"
  R2_PUBLIC_URL :: string

record UploadResult =
  res_id :: string
  res_url_original :: string
  res_url_webp :: string
  res_url_avif :: string
  res_orientation :: string
  res_tags :: "string list"
  res_sizes :: Sizes
  res_expiryTime :: "string option"
  res_format :: string

datatype upload_response = UploadSuccess UploadResult | UploadError string

text \<open>One write to object storage: key, body, content type.\<close>

type_synonym storage_put = "string \<times> bytes \<times> string"

text \<open>
  What one request did: the storage writes it issued (in source order), the transforms
  of the compression service, the metadata record it saved, and the response.
\<close>

record upload_outcome =
  puts :: "storage_put list"
  transforms :: "compress_event list"
  saved :: "ImageMetadata option"
  response :: upload_response

definition put_ok :: "upload_env \<Rightarrow> storage_put \<Rightarrow> bool" where
  "put_ok env p = (case p of (key, body, ct) \<Rightarrow> storage_upload env key body ct)"

definition upload_failed :: "storage_put list \<Rightarrow> compress_event list \<Rightarrow> upload_outcome" where
  "upload_failed ps tr =
     \<lparr> puts = ps, transforms = tr, saved = None, response = UploadError ''Upload failed'' \<rparr>"

text \<open>
  The write of one variant after compression: the compressed image under its own content
  type when there is one, the original bytes under the original content type otherwise.
  The second component is the size recorded for the variant.
\<close>

definition variant_put ::
  "string \<Rightarrow> string \<Rightarrow> CompressedImage option \<Rightarrow> File \<Rightarrow> string \<Rightarrow> storage_put \<times> nat" where
  "variant_put path mime compressed file ct =
     (case compressed of
        Some v \<Rightarrow> ((path, data v, mime), size v)
      | None \<Rightarrow> ((path, file_bytes file, ct), length (file_bytes file)))"

text \<open>
  Lines 99-153 of the handler: expiry, the metadata record, the save, the response. Either
  \<open>toISOString\<close> may throw; the writes are made by then and nothing is saved.
\<close>

definition finish_upload ::
  "upload_env \<Rightarrow> File \<Rightarrow> string list \<Rightarrow> int \<Rightarrow> ImageInfo \<Rightarrow> Paths \<Rightarrow> nat \<Rightarrow> nat
     \<Rightarrow> storage_put list \<Rightarrow> compress_event list \<Rightarrow> upload_outcome" where
  "finish_upload env file tags expiryMinutes imageInfo paths webpSize avifSize ps tr =
     (let isGif = (info_format imageInfo = ''gif'');
          expiry =
            (if expiryMinutes > 0
             then map_option Some
                    (toISOString env (clock_expiry env + expiryMinutes * 60 * 1000))
             else Some None)
      in case expiry of
           None \<Rightarrow> upload_failed ps tr
         | Some expiryTime \<Rightarrow>
             (case toISOString env (clock_upload env) of
                None \<Rightarrow> upload_failed ps tr
              | Some uploadTime \<Rightarrow>
                  (let sizes = \<lparr> sizes_original = length (file_bytes file),
                                   sizes_webp = webpSize, sizes_avif = avifSize \<rparr>;
                       imageMetadata = \<lparr>
                         img_id = generateImageId env,
                         img_originalName = file_name file,
                         img_uploadTime = uploadTime,
                         img_expiryTime = expiryTime,
                         img_orientation = info_orientation imageInfo,
                         img_tags = tags,
                         img_format = info_format imageInfo,
                         img_width = info_width imageInfo,
                         img_height = info_height imageInfo,
                         img_paths = paths,
                         img_sizes = sizes \<rparr>
                   in if \<not> saveImage env imageMetadata then upload_failed ps tr
                      else
                        \<lparr> puts = ps, transforms = tr, saved = Some imageMetadata,
                          response = UploadSuccess \<lparr>
                            res_id = generateImageId env,
                            res_url_original = R2_PUBLIC_URL env @ ''/'' @ paths_original paths,
                            res_url_webp =
                              (if isGif then [] else R2_PUBLIC_URL env @ ''/'' @ paths_webp paths),
                            res_url_avif =
                              (if isGif then [] else R2_PUBLIC_URL env @ ''/'' @ paths_avif paths),
                            res_orientation = info_orientation imageInfo,
                            res_tags = tags,
                            res_sizes = sizes,
                            res_expiryTime = expiryTime,
                            res_format = info_format imageInfo \<rparr> \<rparr>)))"

text \<open>
  \<open>uploadSingleHandler\<close>. The form is read already: \<open>file\<close> is absent when the field is
  missing or a string, \<open>tags\<close> is what \<open>parseTags\<close> returned. Every throw inside the
  handler ends in its catch block, which answers \<open>Upload failed\<close>. The writes joined by
  one \<open>Promise.all\<close> are all issued, and one that throws fails the join. The cache
  invalidation of the last lines is handed to \<open>waitUntil\<close> and never reaches the response;
  it is left out.
\<close>

definition uploadSingleHandler ::
  "upload_env \<Rightarrow> File option \<Rightarrow> string list \<Rightarrow> int \<Rightarrow> CompressionOptions \<Rightarrow> upload_outcome" where
  "uploadSingleHandler env fileField tags expiryMinutes compressionOptions =
     (case fileField of
        None \<Rightarrow> \<lparr> puts = [], transforms = [], saved = None,
                  response = UploadError ''No file provided'' \<rparr>
      | Some file \<Rightarrow>
          (case getImageInfo env (file_bytes file) of
             Inl e \<Rightarrow> upload_failed [] []
           | Inr imageInfo \<Rightarrow>
               if \<not> isSupportedFormat env (info_format imageInfo)
               then \<lparr> puts = [], transforms = [], saved = None,
                      response = UploadError (''Unsupported format: '' @ info_format imageInfo) \<rparr>
               else
                 (let arrayBuffer = file_bytes file;
                      paths = generatePaths env (generateImageId env)
                                (info_orientation imageInfo) (info_format imageInfo);
                      ct = getContentType env (info_format imageInfo);
                      isGif = (info_format imageInfo = ''gif'');
                      putOriginal = (paths_original paths, arrayBuffer, ct)
                  in if \<not> isGif \<and> compression env \<noteq> None then
                       (case compress (the (compression env)) arrayBuffer
                               (info_format imageInfo) compressionOptions of
                          (tr, Inl e) \<Rightarrow> upload_failed [putOriginal] tr
                        | (tr, Inr compressionResult) \<Rightarrow>
                            if \<not> put_ok env putOriginal then upload_failed [putOriginal] tr
                            else
                              (let w = variant_put (paths_webp paths) ''image/webp''
                                         (webp compressionResult) file ct;
                                   a = variant_put (paths_avif paths) ''image/avif''
                                         (avif compressionResult) file ct;
                                   ps = [putOriginal, fst w, fst a]
                               in if \<not> (put_ok env (fst w) \<and> put_ok env (fst a))
                                  then upload_failed ps tr
                                  else finish_upload env file tags expiryMinutes imageInfo paths
                                         (snd w) (snd a) ps tr))
                     else if \<not> isGif then
                       (let ps = [putOriginal, (paths_webp paths, arrayBuffer, ct),
                                  (paths_avif paths, arrayBuffer, ct)]
                        in if \<not> list_all (put_ok env) ps then upload_failed ps []
                           else finish_upload env file tags expiryMinutes imageInfo paths
                                  (length arrayBuffer) (length arrayBuffer) ps [])
                     else
                       (if \<not> put_ok env putOriginal then upload_failed [putOriginal] []
                        else finish_upload env file tags expiryMinutes imageInfo paths 0 0
                               [putOriginal] []))))"

section \<open>The metadata service (services/metadata.ts)\<close>

text \<open>A row of the \<open>images\<close> table; a nullable column is an option.\<close>

record ImageRow =
  row_id :: string
  original_name :: string
  upload_time :: string
  expiry_time :: "string option"
  row_orientation :: string
  row_format :: string
  row_width :: int
  row_height :: int
  path_original :: string
  path_webp :: "string option"
  path_avif :: "string option"
  size_original :: nat
  size_webp :: nat
  size_avif :: nat

text \<open>
  The three tables: \<open>images\<close>, \<open>tags (id, name)\<close> and \<open>image_tags (image_id, tag_id)\<close>.
  A query is evaluated on them by its relational meaning; a join is the nested loop
  over the tables in the order the query names them.
\<close>

record database =
  db_images :: "ImageRow list"
  db_tags :: "(nat \<times> string) list"
  db_image_tags :: "(string \<times> nat) list"

text \<open>
  A prepared statement with its bound parameters. The text is kept as its shape: the
  numbers are the placeholders the code writes into each \<open>IN (...)\<close> or \<open>SELECT ?\<close>
  list.
\<close>

datatype sql =
    InsertTagIfMissing
  | DeleteImageTagsIn nat nat
  | InsertImageTagsFor nat
  | SelectTagsOfImagesIn nat

record prepared =
  sql_text :: sql
  bound :: "string list"

definition rowToMetadata :: "ImageRow \<Rightarrow> string list \<Rightarrow> ImageMetadata" where
  "rowToMetadata row tags = \<lparr>
     img_id = row_id row,
     img_originalName = original_name row,
     img_uploadTime = upload_time row,
     img_expiryTime = (case expiry_time row of Some t \<Rightarrow> (if t = [] then None else Some t) | None \<Rightarrow> None),
     img_orientation = row_orientation row,
     img_tags = tags,
     img_format = row_format row,
     img_width = row_width row,
     img_height = row_height row,
     img_paths = \<lparr>
       paths_original = path_original row,
       paths_webp = (case path_webp row of Some p \<Rightarrow> p | None \<Rightarrow> []),
       paths_avif = (case path_avif row of Some p \<Rightarrow> p | None \<Rightarrow> []) \<rparr>,
     img_sizes = \<lparr> sizes_original = size_original row, sizes_webp = size_webp row,
                   sizes_avif = size_avif row \<rparr> \<rparr>"

subsection \<open>enrichWithTags\<close>

text \<open>
  \<open>SELECT it.image_id, t.name FROM image_tags it JOIN tags t ON it.tag_id = t.id
  WHERE it.image_id IN (chunk)\<close>.
\<close>

definition select_tags_of_images :: "database \<Rightarrow> string list \<Rightarrow> (string \<times> string) list" where
  "select_tags_of_images db chunk =
     concat (map (\<lambda>it. concat (map (\<lambda>t.
        if snd it = fst t \<and> fst it \<in> set chunk then [(fst it, snd t)] else [])
        (db_tags db))) (db_image_tags db))"

text \<open>The inner loop: each result row appends its tag name to the list of its image.\<close>

definition push_tag :: "(string \<rightharpoonup> string list) \<Rightarrow> string \<times> string \<Rightarrow> (string \<rightharpoonup> string list)" where
  "push_tag tagMap r =
     (case tagMap (fst r) of
        None \<Rightarrow> tagMap(fst r \<mapsto> [snd r])
      | Some names \<Rightarrow> tagMap(fst r \<mapsto> names @ [snd r]))"

text \<open>
  The chunk loop \<open>for (i = 0; i < imageIds.length; i += 90)\<close>: the statements it issues
  and the tag map it builds.
\<close>

function enrich_loop ::
  "database \<Rightarrow> string list \<Rightarrow> nat \<Rightarrow> (string \<rightharpoonup> string list)
     \<Rightarrow> prepared list \<times> (string \<rightharpoonup> string list)" where
  "enrich_loop db imageIds i tagMap =
     (if i < length imageIds then
        (let chunk = take 90 (drop i imageIds);
             st = \<lparr> sql_text = SelectTagsOfImagesIn (length chunk), bound = chunk \<rparr>;
             tagMap' = foldl push_tag tagMap (select_tags_of_images db chunk);
             rest = enrich_loop db imageIds (i + 90) tagMap'
         in (st # fst rest, snd rest))
      else ([], tagMap))"
  by pat_completeness auto
termination
  by (relation "measure (\<lambda>(db, imageIds, i, tagMap). length imageIds - i)") auto

declare enrich_loop.simps [simp del]

definition enrichWithTags :: "database \<Rightarrow> ImageRow list \<Rightarrow> prepared list \<times> ImageMetadata list" where
  "enrichWithTags db rows =
     (if rows = [] then ([], [])
      else
        (let r = enrich_loop db (map row_id rows) 0 Map.empty
         in (fst r,
             map (\<lambda>row. rowToMetadata row
                    (case snd r (row_id row) of Some names \<Rightarrow> names | None \<Rightarrow> [])) rows)))"

subsection \<open>getRandomImage\<close>

record RandomFilters =
  f_tags :: "string list option"
  f_exclude :: "string list option"
  f_orientation :: "string option"

text \<open>\<open>filters?.tags?.length\<close> as a condition: the list is given and not empty.\<close>

definition has_items :: "string list option \<Rightarrow> bool" where
  "has_items xs = (case xs of Some l \<Rightarrow> l \<noteq> [] | None \<Rightarrow> False)"

definition items :: "string list option \<Rightarrow> string list" where
  "items xs = (case xs of Some l \<Rightarrow> l | None \<Rightarrow> [])"

text \<open>
  \<open>FROM images i JOIN image_tags it ON i.id = it.image_id JOIN tags t ON it.tag_id = t.id\<close>:
  one row per image and tag of the image, carrying the tag's name.
\<close>

definition images_join_tags :: "database \<Rightarrow> (ImageRow \<times> string) list" where
  "images_join_tags db =
     concat (map (\<lambda>i. concat (map (\<lambda>it. concat (map (\<lambda>t.
        if row_id i = fst it \<and> snd it = fst t then [(i, snd t)] else [])
        (db_tags db))) (db_image_tags db))) (db_images db))"

text \<open>
  \<open>SELECT it2.image_id FROM image_tags it2 JOIN tags t2 ON it2.tag_id = t2.id
  WHERE t2.name IN (exclude)\<close>.
\<close>

definition excluded_image_ids :: "database \<Rightarrow> string list \<Rightarrow> string list" where
  "excluded_image_ids db exclude =
     concat (map (\<lambda>it. concat (map (\<lambda>t.
        if snd it = fst t \<and> snd t \<in> set exclude then [fst it] else [])
        (db_tags db))) (db_image_tags db))"

text \<open>
  The WHERE clause on one row of the FROM clause. Without the join the row carries no
  tag name (\<open>None\<close>); the tag condition is only written when the join is.
\<close>

definition where_ok :: "database \<Rightarrow> RandomFilters \<Rightarrow> ImageRow \<times> string option \<Rightarrow> bool" where
  "where_ok db filters r =
     ((if has_items (f_tags filters)
       then (case snd r of Some name \<Rightarrow> name \<in> set (items (f_tags filters)) | None \<Rightarrow> False)
       else True) \<and>
      (if has_items (f_exclude filters)
       then row_id (fst r) \<notin> set (excluded_image_ids db (items (f_exclude filters)))
       else True) \<and>
      (case f_orientation filters of
         Some ori \<Rightarrow> (if ori \<noteq> [] then row_orientation (fst r) = ori else True)
       | None \<Rightarrow> True))"

text \<open>
  \<open>GROUP BY i.id HAVING COUNT(DISTINCT t.name) = n\<close>: one row per image id among the
  rows, kept when the rows of that id carry \<open>n\<close> different tag names. The columns of
  \<open>i.*\<close> are read from the first row of the group.
\<close>

definition group_having ::
  "nat \<Rightarrow> (ImageRow \<times> string option) list \<Rightarrow> ImageRow list" where
  "group_having n rows =
     concat (map (\<lambda>g.
        (let grp = filter (\<lambda>r. row_id (fst r) = g) rows
         in if length (remdups (map snd grp)) = n
            then (case grp of r # _ \<Rightarrow> [fst r] | [] \<Rightarrow> [])
            else []))
        (remdups (map (\<lambda>r. row_id (fst r)) rows)))"

text \<open>The rows of the query before \<open>ORDER BY RANDOM() LIMIT 1\<close>.\<close>

definition random_candidates :: "database \<Rightarrow> RandomFilters \<Rightarrow> ImageRow list" where
  "random_candidates db filters =
     (let hasTagFilter = has_items (f_tags filters);
          hasExcludeFilter = has_items (f_exclude filters);
          from_rows =
            (if hasTagFilter \<or> hasExcludeFilter
             then map (\<lambda>(i, name). (i, Some name)) (images_join_tags db)
             else map (\<lambda>i. (i, None)) (db_images db));
          rows = filter (where_ok db filters) from_rows
      in if hasTagFilter then group_having (length (items (f_tags filters))) rows
         else map fst rows)"

text \<open>
  \<open>ORDER BY RANDOM() LIMIT 1\<close> with \<open>first()\<close>: no row gives null; otherwise the
  random order puts one of the rows first, here the row at index \<open>rnd\<close> modulo the
  number of rows.
\<close>

definition random_first :: "nat \<Rightarrow> 'a list \<Rightarrow> 'a option" where
  "random_first rnd rows = (if rows = [] then None else Some (rows ! (rnd mod length rows)))"

definition getRandomImage :: "database \<Rightarrow> nat \<Rightarrow> RandomFilters \<Rightarrow> ImageMetadata option" where
  "getRandomImage db rnd filters =
     (case random_first rnd (random_candidates db filters) of
        None \<Rightarrow> None
      | Some result \<Rightarrow>
          (case snd (enrichWithTags db [result]) of
             m # _ \<Rightarrow> Some m
           | [] \<Rightarrow> None))"

subsection \<open>batchUpdateTags\<close>

text \<open>
  The statements \<open>batchUpdateTags\<close> sends, in order, and the number it returns: one
  insert per added tag, one delete over all image ids and removed tags, one
  association insert per added tag over all image ids.
\<close>

definition batchUpdateTags ::
  "string list \<Rightarrow> string list \<Rightarrow> string list \<Rightarrow> prepared list \<times> nat" where
  "batchUpdateTags imageIds addTags removeTags =
     (if imageIds = [] then ([], 0)
      else
        (let statements =
               map (\<lambda>tag. \<lparr> sql_text = InsertTagIfMissing, bound = [tag] \<rparr>) addTags;
             removal =
               (if removeTags \<noteq> []
                then [\<lparr> sql_text = DeleteImageTagsIn (length imageIds) (length removeTags),
                        bound = imageIds @ removeTags \<rparr>]
                else []);
             addStatements =
               (if addTags \<noteq> []
                then map (\<lambda>tag. \<lparr> sql_text = InsertImageTagsFor (length imageIds),
                                   bound = tag # imageIds \<rparr>) addTags
                else [])
         in (statements @ removal @ addStatements, length imageIds)))"

section \<open>URL resolution (utils/imageTransform.ts)\<close>

text \<open>
  The platform's \<open>URL\<close> class enters as two functions: \<open>url_resolve key base\<close> is
  \<open>new URL(key, base).toString()\<close>, and \<open>url_parse u\<close> gives the origin, pathname and
  search of \<open>new URL(u)\<close>; \<open>None\<close> is the TypeError of an invalid URL.
\<close>

record url_api =
  url_resolve :: "string \<Rightarrow> string \<Rightarrow> string option"
  url_parse :: "string \<Rightarrow> (string \<times> string \<times> string) option"

record Urls =
  url_original :: string
  url_webp :: string
  url_avif :: string

definition DEFAULT_TRANSFORM_OPTIONS :: RequiredOptions where
  "DEFAULT_TRANSFORM_OPTIONS = \<lparr> quality = 90, maxWidth = 0, maxHeight = 0,
     preserveAnimation = True, generateWebp = True, generateAvif = True \<rparr>"

text \<open>On the integers the options hold, \<open>Number.isFinite\<close> is true and \<open>Math.trunc\<close> is the identity.\<close>

definition clampInt :: "int \<Rightarrow> int \<Rightarrow> int \<Rightarrow> int" where
  "clampInt v lo hi = max lo (min hi v)"

definition toPositiveInt :: "int \<Rightarrow> int \<Rightarrow> int" where
  "toPositiveInt v fallback = max 0 v"

definition buildPublicUrl :: "url_api \<Rightarrow> string \<Rightarrow> string \<Rightarrow> string option" where
  "buildPublicUrl api baseUrl key =
     (let base = (if suffix ''/'' baseUrl then baseUrl else baseUrl @ ''/'');
          normalizedKey = (if prefix ''/'' key then drop 1 key else key)
      in url_resolve api normalizedKey base)"

text \<open>Decimal digits of a number, as template literals print an integer.\<close>

function show_nat :: "nat \<Rightarrow> string" where
  "show_nat n =
     (if n < 10 then [char_of (48 + n)]
      else show_nat (n div 10) @ [char_of (48 + n mod 10)])"
  by pat_completeness auto
termination
  by (relation "measure (\<lambda>n. n)") auto

declare show_nat.simps [simp del]

definition show_int :: "int \<Rightarrow> string" where
  "show_int i = (if i < 0 then ''-'' @ show_nat (nat (- i)) else show_nat (nat i))"

text \<open>
  A number in a template literal. Every finite number printed here is an integer (a
  clamped quality or a rounded dimension).
\<close>

fun js_toString :: "jsnum \<Rightarrow> string" where
  "js_toString (Num x) = show_int \<lfloor>x\<rfloor>"
| "js_toString PosInf = ''Infinity''"
| "js_toString NegInf = ''-Infinity''"
| "js_toString NaN = ''NaN''"

text \<open>A number as a condition: zero and NaN are false.\<close>

fun js_truthy :: "jsnum \<Rightarrow> bool" where
  "js_truthy (Num x) = (x \<noteq> 0)"
| "js_truthy NaN = False"
| "js_truthy _ = True"

fun join_comma :: "string list \<Rightarrow> string" where
  "join_comma [] = []"
| "join_comma [p] = p"
| "join_comma (p # ps) = p @ '','' @ join_comma ps"

text \<open>
  \<open>buildCdnCgiOptionsString\<close>; the dimensions are absent when no resize limit is set,
  and \<open>fit\<close> is \<open>scale-down\<close> whenever they are present.
\<close>

definition buildCdnCgiOptionsString :: "string \<Rightarrow> int \<Rightarrow> Dimensions option \<Rightarrow> string" where
  "buildCdnCgiOptionsString fmt q dims =
     (let parts = [''format='' @ fmt, ''quality='' @ show_int (clampInt q 1 100)];
          sized =
            (case dims of
               Some d \<Rightarrow>
                 if js_truthy (width d) \<and> js_truthy (height d)
                 then [''width='' @ js_toString (width d), ''height='' @ js_toString (height d),
                       ''fit=scale-down'']
                 else []
             | None \<Rightarrow> [])
      in join_comma (parts @ sized))"

definition buildTransformedUrl :: "url_api \<Rightarrow> string \<Rightarrow> string \<Rightarrow> string option" where
  "buildTransformedUrl api originalUrl optionsString =
     (case url_parse api originalUrl of
        None \<Rightarrow> None
      | Some (origin, pathname, search) \<Rightarrow>
          Some (origin @ ''/cdn-cgi/image/'' @ optionsString @ pathname @ search))"

text \<open>
  The URL of one variant (the two closures \<open>webpUrl\<close> and \<open>avifUrl\<close> of
  \<open>buildImageUrls\<close>, which differ in the format name only).
\<close>

definition variant_url ::
  "url_api \<Rightarrow> fp_ops \<Rightarrow> string \<Rightarrow> bool \<Rightarrow> string \<Rightarrow> string \<Rightarrow> string \<Rightarrow> ImageMetadata
     \<Rightarrow> int \<Rightarrow> int \<Rightarrow> int \<Rightarrow> string option" where
  "variant_url api fp fmt generate stored formatLower originalUrl img q maxW maxH =
     (if \<not> generate then Some []
      else if stored \<noteq> [] then Some stored
      else if formatLower = fmt then Some originalUrl
      else if \<not> (formatLower = ''jpeg'' \<or> formatLower = ''jpg'' \<or> formatLower = ''png'') then Some []
      else
        (let dims = (if maxW > 0 \<and> maxH > 0
                     then Some (calculateDimensions fp (img_width img) (img_height img) maxW maxH)
                     else None)
         in buildTransformedUrl api originalUrl (buildCdnCgiOptionsString fmt q dims)))"

text \<open>
  The stored URL of a variant: its path is set, is not the marker (the original's path
  under another format), and stored variants are preferred.
\<close>

definition stored_url ::
  "url_api \<Rightarrow> string \<Rightarrow> bool \<Rightarrow> string \<Rightarrow> string \<Rightarrow> string \<Rightarrow> string \<Rightarrow> string option" where
  "stored_url api baseUrl preferStoredVariants fmt formatLower pathOriginal path =
     (let isMarker = (path \<noteq> [] \<and> path = pathOriginal \<and> formatLower \<noteq> fmt)
      in if preferStoredVariants \<and> path \<noteq> [] \<and> \<not> isMarker
         then buildPublicUrl api baseUrl path
         else Some [])"

text \<open>\<open>buildImageUrls\<close>; \<open>None\<close> when a URL constructor throws.\<close>

definition buildImageUrls ::
  "url_api \<Rightarrow> fp_ops \<Rightarrow> string \<Rightarrow> ImageMetadata \<Rightarrow> CompressionOptions \<Rightarrow> bool \<Rightarrow> Urls option" where
  "buildImageUrls api fp baseUrl img options preferStoredVariants =
     (let opts = merge_options DEFAULT_TRANSFORM_OPTIONS options
      in case buildPublicUrl api baseUrl (paths_original (img_paths img)) of
           None \<Rightarrow> None
         | Some originalUrl \<Rightarrow>
             (let formatLower = toLowerCase (img_format img)
              in if formatLower = ''gif''
                 then Some \<lparr> url_original = originalUrl, url_webp = [], url_avif = [] \<rparr>
                 else
                   (case stored_url api baseUrl preferStoredVariants ''webp'' formatLower
                           (paths_original (img_paths img)) (paths_webp (img_paths img)) of
                      None \<Rightarrow> None
                    | Some webpStored \<Rightarrow>
                   (case stored_url api baseUrl preferStoredVariants ''avif'' formatLower
                           (paths_original (img_paths img)) (paths_avif (img_paths img)) of
                      None \<Rightarrow> None
                    | Some avifStored \<Rightarrow>
                   (let q = clampInt (toPositiveInt (quality opts) (quality DEFAULT_TRANSFORM_OPTIONS)) 1 100;
                        maxW = toPositiveInt (maxWidth opts) (maxWidth DEFAULT_TRANSFORM_OPTIONS);
                        maxH = toPositiveInt (maxHeight opts) (maxHeight DEFAULT_TRANSFORM_OPTIONS)
                    in case variant_url api fp ''webp'' (generateWebp opts) webpStored formatLower
                              originalUrl img q maxW maxH of
                         None \<Rightarrow> None
                       | Some webpUrl \<Rightarrow>
                     (case variant_url api fp ''avif'' (generateAvif opts) avifStored formatLower
                              originalUrl img q maxW maxH of
                         None \<Rightarrow> None
                       | Some avifUrl \<Rightarrow>
                           Some \<lparr> url_original = originalUrl, url_webp = webpUrl,
                                  url_avif = avifUrl \<rparr>))))))"

section \<open>The random-image handler (handlers/random.ts)\<close>

text \<open>
  The request, with the two tag parameters already through \<open>parseTags\<close>, and what the
  handler needs from outside: the database and the random order of the query,
  \<open>isMobileDevice\<close> and \<open>getBestFormat\<close> of utils/validation, the URL functions, the
  number arithmetic and the public base URL.
\<close>

record random_request =
  q_tags :: "string list"
  q_exclude :: "string list"
  q_orientation :: "string option"
  q_format :: "string option"
  h_user_agent :: "string option"
  h_accept :: "string option"

record random_env =
  r_db :: database
  r_rnd :: nat
  isMobileDevice :: "string option \<Rightarrow> bool"
  getBestFormat :: "string option \<Rightarrow> string"
  r_urls :: url_api
  r_arith :: fp_ops
  r_public_url :: string

datatype random_response = Redirect string | NotFound string | Failed string

text \<open>Lines 22-30: the orientation the query filters by.\<close>

definition request_orientation :: "random_env \<Rightarrow> random_request \<Rightarrow> string" where
  "request_orientation env req =
     (if q_orientation req = Some ''landscape'' \<or> q_orientation req = Some ''portrait''
      then the (q_orientation req)
      else if isMobileDevice env (h_user_agent req) then ''portrait'' else ''landscape'')"

definition request_filters :: "random_env \<Rightarrow> random_request \<Rightarrow> RandomFilters" where
  "request_filters env req = \<lparr>
     f_tags = (if length (q_tags req) > 0 then Some (q_tags req) else None),
     f_exclude = (if length (q_exclude req) > 0 then Some (q_exclude req) else None),
     f_orientation = Some (request_orientation env req) \<rparr>"

text \<open>\<open>a || b\<close> on strings: the first unless it is empty.\<close>

definition or_else :: "string \<Rightarrow> string \<Rightarrow> string" where
  "or_else a b = (if a \<noteq> [] then a else b)"

text \<open>Lines 54-78: the URL the request is redirected to.\<close>

definition target_url :: "random_env \<Rightarrow> random_request \<Rightarrow> ImageMetadata \<Rightarrow> Urls \<Rightarrow> string" where
  "target_url env req img urls =
     (if img_format img = ''gif'' then url_original urls
      else if q_format req = Some ''original'' then url_original urls
      else if q_format req = Some ''webp'' then or_else (url_webp urls) (url_original urls)
      else if q_format req = Some ''avif'' then or_else (url_avif urls) (url_original urls)
      else
        (let best = getBestFormat env (h_accept req)
         in if best = ''avif'' \<and> url_avif urls \<noteq> [] then url_avif urls
            else if best = ''webp'' \<and> url_webp urls \<noteq> [] then url_webp urls
            else url_original urls))"

text \<open>The options the handler passes to \<open>buildImageUrls\<close>.\<close>

definition random_options :: "ImageMetadata \<Rightarrow> CompressionOptions" where
  "random_options img = no_options \<lparr>
     opt_generateWebp := Some (paths_webp (img_paths img) \<noteq> []),
     opt_generateAvif := Some (paths_avif (img_paths img) \<noteq> []) \<rparr>"

definition randomHandler :: "random_env \<Rightarrow> random_request \<Rightarrow> random_response" where
  "randomHandler env req =
     (case getRandomImage (r_db env) (r_rnd env) (request_filters env req) of
        None \<Rightarrow> NotFound ''No images found matching criteria''
      | Some img \<Rightarrow>
          (case buildImageUrls (r_urls env) (r_arith env) (r_public_url env) img
                  (random_options img) True of
             None \<Rightarrow> Failed ''Failed to get random image''
           | Some urls \<Rightarrow>
               (let targetUrl = target_url env req img urls
                in if targetUrl = [] then NotFound ''Image file not found''
                   else Redirect targetUrl)))"

section \<open>Deleting a tag (the tags handlers)\<close>

text \<open>A row of \<open>getImagePathsByTag\<close>: the id and the three stored paths, two of them nullable.\<close>

record ImagePathsRow =
  ip_id :: string
  ip_original :: string
  ip_webp :: "string option"
  ip_avif :: "string option"

text \<open>One entry of a queue message: \<open>{id, paths: {original, webp?, avif?}}\<close>.\<close>

record QueuePath =
  qp_id :: string
  qp_original :: string
  qp_webp :: "string option"
  qp_avif :: "string option"

record queue_message =
  msg_type :: string
  msg_tagName :: string
  msg_imagePaths :: "QueuePath list"

text \<open>
  What the handler needs from outside, each call with its outcome: \<open>Inl\<close> or \<open>False\<close>
  or \<open>None\<close> is a throw. \<open>queue_send i m\<close> is the outcome of sending message \<open>m\<close> at
  loop index \<open>i\<close>.
\<close>

record tags_env =
  decodeURIComponent :: "string \<Rightarrow> string option"
  getImagePathsByTag :: "string \<Rightarrow> string + ImagePathsRow list"
  deleteTagWithImages :: "string \<Rightarrow> string + nat"
  invalidateAfterTagChange :: bool
  queue_send :: "nat \<Rightarrow> queue_message \<Rightarrow> bool"

text \<open>The calls the handler makes on the metadata store, the cache and the queue.\<close>

datatype tag_effect =
    ReadImagePaths string
  | MetadataDelete string
  | CacheInvalidate
  | QueueSend queue_message

text \<open>
  The response: \<open>successResponse\<close> with the number of deleted images, or
  \<open>errorResponse\<close> with the handler's failure message.
\<close>

datatype tag_response = DeleteSucceeded nat | DeleteFailed

text \<open>\<open>p || undefined\<close>: null and the empty string become undefined.\<close>

definition or_undefined :: "string option \<Rightarrow> string option" where
  "or_undefined p = (case p of Some s \<Rightarrow> (if s = [] then None else Some s) | None \<Rightarrow> None)"

definition to_queue_path :: "ImagePathsRow \<Rightarrow> QueuePath" where
  "to_queue_path row = \<lparr> qp_id = ip_id row, qp_original = ip_original row,
     qp_webp = or_undefined (ip_webp row), qp_avif = or_undefined (ip_avif row) \<rparr>"

text \<open>
  The loop \<open>for (i = 0; i < imagePaths.length; i += 50)\<close>: the sends it makes and whether
  all of them resolved. A send that throws ends the loop.
\<close>

function send_chunks ::
  "tags_env \<Rightarrow> string \<Rightarrow> QueuePath list \<Rightarrow> nat \<Rightarrow> tag_effect list \<times> bool" where
  "send_chunks env name imagePaths i =
     (if i < length imagePaths then
        (let m = \<lparr> msg_type = ''delete_tag_images'', msg_tagName = name,
                    msg_imagePaths = take 50 (drop i imagePaths) \<rparr>
         in if \<not> queue_send env i m then ([QueueSend m], False)
            else
              (let rest = send_chunks env name imagePaths (i + 50)
               in (QueueSend m # fst rest, snd rest)))
      else ([], True))"
  by pat_completeness auto
termination
  by (relation "measure (\<lambda>(env, name, imagePaths, i). length imagePaths - i)") auto

declare send_chunks.simps [simp del]

definition deleteTagHandler :: "tags_env \<Rightarrow> string \<Rightarrow> tag_effect list \<times> tag_response" where
  "deleteTagHandler env param =
     (case decodeURIComponent env param of
        None \<Rightarrow> ([], DeleteFailed)
      | Some name \<Rightarrow>
          (case getImagePathsByTag env name of
             Inl e \<Rightarrow> ([ReadImagePaths name], DeleteFailed)
           | Inr images \<Rightarrow>
               (let imagePaths = map to_queue_path images
                in case deleteTagWithImages env name of
                     Inl e \<Rightarrow> ([ReadImagePaths name, MetadataDelete name], DeleteFailed)
                   | Inr deletedImages \<Rightarrow>
                       if \<not> invalidateAfterTagChange env
                       then ([ReadImagePaths name, MetadataDelete name, CacheInvalidate],
                             DeleteFailed)
                       else
                         (let sent = (if length imagePaths > 0
                                      then send_chunks env name imagePaths 0
                                      else ([], True))
                          in ([ReadImagePaths name, MetadataDelete name, CacheInvalidate] @ fst sent,
                              if snd sent then DeleteSucceeded deletedImages else DeleteFailed)))))"

section \<open>Observations on traces\<close>

text \<open>Predicates and projections the theorems below are stated with.\<close>

fun is_attempt :: "retry_event \<Rightarrow> bool" where
  "is_attempt (Attempt k) = True"
| "is_attempt (Sleep ms) = False"

fun is_transform :: "variant \<Rightarrow> compress_event \<Rightarrow> bool" where
  "is_transform v (Transform v' q d k) = (v' = v)"
| "is_transform v (Wait v' ms) = False"

fun event_variant :: "compress_event \<Rightarrow> variant" where
  "event_variant (Transform v q d k) = v"
| "event_variant (Wait v ms) = v"

fun is_queue_send :: "tag_effect \<Rightarrow> bool" where
  "is_queue_send (QueueSend m) = True"
| "is_queue_send _ = False"

fun sent_paths :: "tag_effect \<Rightarrow> QueuePath list" where
  "sent_paths (QueueSend m) = msg_imagePaths m"
| "sent_paths _ = []"

text \<open>The attempts \<open>compress\<close> allows each format (the \<open>attempts\<close> option of its two calls).\<close>

fun attempts_allowed :: "variant \<Rightarrow> nat" where
  "attempts_allowed WebP = 2"
| "attempts_allowed AVIF = 3"

text \<open>
  The frame markers the scan of \<open>isAnimatedGif\<close> can find: a Graphic Control Extension
  (0x21 0xF9) or an Image Descriptor (0x2C) at a position before the last byte.
\<close>

fun frame_markers :: "bytes \<Rightarrow> nat" where
  "frame_markers (b0 # b1 # rest) =
     (if (b0 = 0x21 \<and> b1 = 0xF9) \<or> b0 = 0x2C then 1 else 0) + frame_markers (b1 # rest)"
| "frame_markers _ = 0"

text \<open>An image id is associated with a tag name: a row of \<open>image_tags\<close> links it to a tag of that name.\<close>

definition has_tag :: "database \<Rightarrow> string \<Rightarrow> string \<Rightarrow> bool" where
  "has_tag db i t =
     (\<exists>it \<in> set (db_image_tags db). \<exists>tg \<in> set (db_tags db).
        fst it = i \<and> snd it = fst tg \<and> snd tg = t)"

section \<open>Example inputs\<close>

text \<open>
  Concrete inputs for the closed theorems below: a JPEG and a GIF as byte strings, an
  Images binding whose WebP transform times out once and then succeeds and whose AVIF
  transform rejects the image, and an upload environment around it.
\<close>

definition example_image :: bytes where
  "example_image = [0xFF, 0xD8, 0x2C, 0x2C, 0x00]"

definition example_gif :: bytes where
  "example_gif = [0x47, 0x49, 0x46, 0x21, 0xF9, 0x2C, 0x00]"

definition example_webp :: CompressedImage where
  "example_webp = \<lparr> data = [0x52, 0x49], contentType = ''image/webp'', size = 2 \<rparr>"

definition example_env :: compress_env where
  "example_env = \<lparr>
     arith = exact_ops,
     getImageDimensions = (\<lambda>bs. Inr (4000, 3000)),
     compressToFormat = (\<lambda>bs v q d k.
       case v of
         WebP \<Rightarrow> (if k < 2 then Inl ''Request timeout'' else Inr example_webp)
       | AVIF \<Rightarrow> Inl ''Invalid image'') \<rparr>"

definition example_file :: File where
  "example_file = \<lparr> file_name = ''cat.jpg'', file_bytes = example_image \<rparr>"

definition example_upload_env :: upload_env where
  "example_upload_env = \<lparr>
     getImageInfo = (\<lambda>bs. Inr \<lparr> info_format = ''jpeg'', info_width = 4000,
                                info_height = 3000, info_orientation = ''landscape'' \<rparr>),
     isSupportedFormat = (\<lambda>f. True),
     getContentType = (\<lambda>f. ''image/jpeg''),
     generateImageId = ''img1'',
     generatePaths = (\<lambda>i ori fmt. \<lparr>
       paths_original = ''original/'' @ ori @ ''/'' @ i @ ''.'' @ fmt,
       paths_webp = (if fmt = ''gif'' then [] else ori @ ''/webp/'' @ i @ ''.webp''),
       paths_avif = (if fmt = ''gif'' then [] else ori @ ''/avif/'' @ i @ ''.avif'') \<rparr>),
     storage_upload = (\<lambda>k b c. True),
     compression = Some example_env,
     saveImage = (\<lambda>m. True),
     clock_expiry = 0,
     clock_upload = 0,
     toISOString = (\<lambda>t. Some ''1970-01-01T00:00:00.000Z''),
     R2_PUBLIC_URL = ''https://img.example'' \<rparr>"

text \<open>The upload of a GIF through the same environment.\<close>

definition gif_file :: File where
  "gif_file = \<lparr> file_name = ''anim.gif'', file_bytes = example_gif \<rparr>"

definition gif_upload_env :: upload_env where
  "gif_upload_env = example_upload_env \<lparr>
     getImageInfo := (\<lambda>bs. Inr \<lparr> info_format = ''gif'', info_width = 40,
                                 info_height = 30, info_orientation = ''landscape'' \<rparr>),
     getContentType := (\<lambda>f. ''image/gif'') \<rparr>"

text \<open>
  A tag with 51 images, a store and a queue that do not fail, and the same store with a
  failing metadata deletion.
\<close>

definition example_rows :: "ImagePathsRow list" where
  "example_rows = map (\<lambda>n. \<lparr> ip_id = replicate (Suc n) (CHR ''i''),
       ip_original = ''o/'' @ replicate (Suc n) (CHR ''i''),
       ip_webp = Some (''w/'' @ replicate (Suc n) (CHR ''i'')),
       ip_avif = None \<rparr>) [0..<51]"

definition example_tags_env :: tags_env where
  "example_tags_env = \<lparr>
     decodeURIComponent = (\<lambda>s. Some s),
     getImagePathsByTag = (\<lambda>name. Inr example_rows),
     deleteTagWithImages = (\<lambda>name. Inr 51),
     invalidateAfterTagChange = True,
     queue_send = (\<lambda>i m. True) \<rparr>"

definition failing_tags_env :: tags_env where
  "failing_tags_env = example_tags_env \<lparr> deleteTagWithImages := (\<lambda>name. Inl ''D1_ERROR'') \<rparr>"

text \<open>The same store with a queue that accepts the first message only.\<close>

definition rejecting_tags_env :: tags_env where
  "rejecting_tags_env = example_tags_env \<lparr> queue_send := (\<lambda>i m. i < 50) \<rparr>"

text \<open>
  A catalogue of three landscape images: one with no tag, one tagged \<open>cat\<close>, one
  tagged \<open>cat\<close> and \<open>nsfw\<close>; and the requests of a desktop browser.
\<close>

definition example_row :: "string \<Rightarrow> string \<Rightarrow> ImageRow" where
  "example_row i ori = \<lparr>
     row_id = i, original_name = i @ ''.jpg'', upload_time = ''2025-01-01T00:00:00.000Z'',
     expiry_time = None, row_orientation = ori, row_format = ''jpeg'',
     row_width = 4000, row_height = 3000,
     path_original = ''original/'' @ ori @ ''/'' @ i @ ''.jpeg'',
     path_webp = Some (ori @ ''/webp/'' @ i @ ''.webp''),
     path_avif = Some (ori @ ''/avif/'' @ i @ ''.avif''),
     size_original = 5, size_webp = 2, size_avif = 5 \<rparr>"

definition example_db :: database where
  "example_db = \<lparr>
     db_images = [example_row ''plain'' ''landscape'', example_row ''tabby'' ''landscape'',
                  example_row ''sphynx'' ''landscape''],
     db_tags = [(1, ''cat''), (2, ''nsfw'')],
     db_image_tags = [(''tabby'', 1), (''sphynx'', 1), (''sphynx'', 2)] \<rparr>"

definition untagged_db :: database where
  "untagged_db = \<lparr>
     db_images = [example_row ''plain'' ''landscape''],
     db_tags = [(2, ''nsfw'')],
     db_image_tags = [] \<rparr>"

text \<open>
  The random endpoint on that catalogue for a desktop browser that accepts AVIF, with a
  URL class that joins a non-empty base and the key; a JPEG record whose variant paths
  are empty, the row and the record of a GIF, and the record of the image \<open>tabby\<close>.
\<close>

definition example_url_api :: url_api where
  "example_url_api = \<lparr>
     url_resolve = (\<lambda>key base. if base = [] then None else Some (base @ key)),
     url_parse = (\<lambda>u. if prefix ''https://img.example'' u
                       then Some (''https://img.example'', drop 19 u, [])
                       else None) \<rparr>"

definition example_random_env :: random_env where
  "example_random_env = \<lparr>
     r_db = example_db,
     r_rnd = 1,
     isMobileDevice = (\<lambda>ua. case ua of Some s \<Rightarrow> str_includes s ''Mobile'' | None \<Rightarrow> False),
     getBestFormat = (\<lambda>accept. case accept of
         Some s \<Rightarrow> (if str_includes s ''image/avif'' then ''avif''
                    else if str_includes s ''image/webp'' then ''webp'' else ''original'')
       | None \<Rightarrow> ''original''),
     r_urls = example_url_api,
     r_arith = exact_ops,
     r_public_url = ''https://img.example'' \<rparr>"

definition example_request :: random_request where
  "example_request = \<lparr>
     q_tags = [], q_exclude = [], q_orientation = None, q_format = None,
     h_user_agent = Some ''Mozilla/5.0 (X11; Linux x86_64)'',
     h_accept = Some ''image/avif,image/webp,*/*'' \<rparr>"

definition bare_jpeg :: ImageMetadata where
  "bare_jpeg = rowToMetadata
     ((example_row ''bare'' ''landscape'') \<lparr> path_webp := None, path_avif := None \<rparr>) []"

definition tabby_record :: ImageMetadata where
  "tabby_record = rowToMetadata (example_row ''tabby'' ''landscape'') [''cat'']"

definition gif_row :: ImageRow where
  "gif_row = (example_row ''anim'' ''landscape'') \<lparr> row_format := ''gif'',
        path_original := ''original/landscape/anim.gif'',
        path_webp := None, path_avif := None \<rparr>"

definition example_gif_record :: ImageMetadata where
  "example_gif_record = rowToMetadata gif_row []"

text \<open>A catalogue that holds one GIF, behind the same endpoint.\<close>

definition gif_random_env :: random_env where
  "gif_random_env = example_random_env \<lparr>
     r_db := \<lparr> db_images = [gif_row], db_tags = [], db_image_tags = [] \<rparr> \<rparr>"

text \<open>Two hundred image ids.\<close>

definition many_ids :: "string list" where
  "many_ids = map (\<lambda>n. replicate (Suc n) (CHR ''i'')) [0..<200]"

section \<open>The retry loop\<close>

lemma withRetry_loop_unfold:
  "withRetry_loop fn n b le a =
     (if a \<le> n then
        (case fn a of
           Inr v \<Rightarrow> ([Attempt a], Inr v)
         | Inl err \<Rightarrow>
             if a \<ge> n \<or> \<not> isRetryableTransformError err
             then ([Attempt a], Inl err)
             else (Attempt a # Sleep (b * 2 ^ (a - 1)) # fst (withRetry_loop fn n b (Some err) (a + 1)),
                   snd (withRetry_loop fn n b (Some err) (a + 1))))
      else ([], Inl (case le of Some e \<Rightarrow> e | None \<Rightarrow> ''undefined'')))"
  by (subst withRetry_loop.simps) (simp add: Let_def split_beta split: sum.splits)

lemma loop_finished:
  "\<not> a \<le> n \<Longrightarrow>
   withRetry_loop fn n b le a = ([], Inl (case le of Some e \<Rightarrow> e | None \<Rightarrow> ''undefined''))"
  by (subst withRetry_loop_unfold) simp

lemma loop_returned:
  "a \<le> n \<Longrightarrow> fn a = Inr v \<Longrightarrow> withRetry_loop fn n b le a = ([Attempt a], Inr v)"
  by (subst withRetry_loop_unfold) simp

lemma loop_gave_up:
  "a \<le> n \<Longrightarrow> fn a = Inl e \<Longrightarrow> n \<le> a \<or> \<not> isRetryableTransformError e \<Longrightarrow>
   withRetry_loop fn n b le a = ([Attempt a], Inl e)"
  by (subst withRetry_loop_unfold) auto

lemma loop_retried:
  "a < n \<Longrightarrow> fn a = Inl e \<Longrightarrow> isRetryableTransformError e \<Longrightarrow>
   withRetry_loop fn n b le a =
     (Attempt a # Sleep (b * 2 ^ (a - 1)) # fst (withRetry_loop fn n b (Some e) (a + 1)),
      snd (withRetry_loop fn n b (Some e) (a + 1)))"
  by (subst withRetry_loop_unfold) auto

text \<open>Induction over the iterations of the loop, one case per way an iteration ends.\<close>

lemma loop_cases [case_names finished returned gave_up retried]:
  fixes n :: nat and fn :: "nat \<Rightarrow> string + 'a" and P :: "string option \<Rightarrow> nat \<Rightarrow> bool"
  assumes "\<And>le a. \<not> a \<le> n \<Longrightarrow> P le a"
    and "\<And>le a v. a \<le> n \<Longrightarrow> fn a = Inr v \<Longrightarrow> P le a"
    and "\<And>le a e. a \<le> n \<Longrightarrow> fn a = Inl e \<Longrightarrow> n \<le> a \<or> \<not> isRetryableTransformError e \<Longrightarrow> P le a"
    and "\<And>le a e. a < n \<Longrightarrow> fn a = Inl e \<Longrightarrow> isRetryableTransformError e \<Longrightarrow>
           P (Some e) (a + 1) \<Longrightarrow> P le a"
  shows "P le a"
proof (induction "Suc n - a" arbitrary: le a)
  case 0
  then have "\<not> a \<le> n" by simp
  then show ?case by (rule assms(1))
next
  case (Suc m)
  then have an: "a \<le> n" by simp
  show ?case
  proof (cases "fn a")
    case (Inr v)
    with an show ?thesis by (rule assms(2))
  next
    case (Inl e)
    show ?thesis
    proof (cases "n \<le> a \<or> \<not> isRetryableTransformError e")
      case True
      with an Inl show ?thesis by (rule assms(3))
    next
      case False
      then have lt: "a < n" and re: "isRetryableTransformError e" by auto
      have "m = Suc n - (a + 1)" using Suc.hyps(2) by simp
      then have "P (Some e) (a + 1)" by (rule Suc.hyps(1))
      with lt Inl re show ?thesis by (rule assms(4))
    qed
  qed
qed

lemma loop_head:
  "a \<le> n \<Longrightarrow> \<exists>rest. fst (withRetry_loop fn n b le a) = Attempt a # rest"
  by (subst withRetry_loop_unfold) (simp split: sum.splits)

lemma loop_count:
  "length (filter is_attempt (fst (withRetry_loop fn n b le a))) \<le> Suc n - a"
proof (induction le a rule: loop_cases[where n = n and fn = fn])
  case (finished le a) then show ?case by (simp add: loop_finished)
next
  case (returned le a v) then show ?case by (simp add: loop_returned)
next
  case (gave_up le a e) then show ?case by (simp add: loop_gave_up)
next
  case (retried le a e) then show ?case by (simp add: loop_retried)
qed

lemma loop_retry_step:
  "Attempt k \<in> set (fst (withRetry_loop fn n b le a)) \<Longrightarrow> fn k = Inl e \<Longrightarrow>
   isRetryableTransformError e \<Longrightarrow> k < n \<Longrightarrow>
   \<exists>pre post. fst (withRetry_loop fn n b le a) =
      pre @ [Attempt k, Sleep (b * 2 ^ (k - 1)), Attempt (Suc k)] @ post"
proof (induction le a rule: loop_cases[where n = n and fn = fn])
  case (finished le a) then show ?case by (simp add: loop_finished)
next
  case (returned le a v) then show ?case by (simp add: loop_returned)
next
  case (gave_up le a e') then show ?case by (auto simp add: loop_gave_up)
next
  case (retried le a e')
  show ?case
  proof (cases "k = a")
    case True
    obtain rest where "fst (withRetry_loop fn n b (Some e') (a + 1)) = Attempt (a + 1) # rest"
      using loop_head[of "a + 1" n fn b "Some e'"] retried.hyps(1) by auto
    then have "fst (withRetry_loop fn n b le a) =
        [] @ [Attempt k, Sleep (b * 2 ^ (k - 1)), Attempt (Suc k)] @ rest"
      using retried.hyps True by (simp add: loop_retried)
    then show ?thesis by blast
  next
    case False
    then have "Attempt k \<in> set (fst (withRetry_loop fn n b (Some e') (a + 1)))"
      using retried.prems(1) retried.hyps by (simp add: loop_retried)
    then obtain pre post where
      "fst (withRetry_loop fn n b (Some e') (a + 1)) =
         pre @ [Attempt k, Sleep (b * 2 ^ (k - 1)), Attempt (Suc k)] @ post"
      using retried.IH retried.prems by blast
    then have "fst (withRetry_loop fn n b le a) =
        (Attempt a # Sleep (b * 2 ^ (a - 1)) # pre) @
          [Attempt k, Sleep (b * 2 ^ (k - 1)), Attempt (Suc k)] @ post"
      using retried.hyps by (simp add: loop_retried)
    then show ?thesis by blast
  qed
qed

lemma loop_last_attempt:
  "Attempt k \<in> set (fst (withRetry_loop fn n b le a)) \<Longrightarrow> fn k = Inl e \<Longrightarrow>
   \<not> isRetryableTransformError e \<or> n \<le> k \<Longrightarrow>
   (\<exists>pre. fst (withRetry_loop fn n b le a) = pre @ [Attempt k]) \<and>
   snd (withRetry_loop fn n b le a) = Inl e"
proof (induction le a rule: loop_cases[where n = n and fn = fn])
  case (finished le a) then show ?case by (simp add: loop_finished)
next
  case (returned le a v) then show ?case by (simp add: loop_returned)
next
  case (gave_up le a e') then show ?case by (auto simp add: loop_gave_up)
next
  case (retried le a e')
  have "k \<noteq> a" using retried.hyps retried.prems by auto
  then have "Attempt k \<in> set (fst (withRetry_loop fn n b (Some e') (a + 1)))"
    using retried.prems(1) retried.hyps by (simp add: loop_retried)
  then obtain pre where "fst (withRetry_loop fn n b (Some e') (a + 1)) = pre @ [Attempt k]"
    and r: "snd (withRetry_loop fn n b (Some e') (a + 1)) = Inl e"
    using retried.IH retried.prems by blast
  then have "fst (withRetry_loop fn n b le a) = (Attempt a # Sleep (b * 2 ^ (a - 1)) # pre) @ [Attempt k]"
    using retried.hyps by (simp add: loop_retried)
  with r retried.hyps show ?case by (auto simp add: loop_retried)
qed

text \<open>
  The loop returns a value exactly when some attempt within the limit returns it and
  every attempt before it threw a retryable error.
\<close>

lemma loop_result:
  "snd (withRetry_loop fn n b le a) = Inr v \<longleftrightarrow>
   (\<exists>k. a \<le> k \<and> k \<le> n \<and> fn k = Inr v \<and>
        (\<forall>j. a \<le> j \<and> j < k \<longrightarrow> (\<exists>e. fn j = Inl e \<and> isRetryableTransformError e)))"
proof (induction le a rule: loop_cases[where n = n and fn = fn])
  case (finished le a) then show ?case by (auto simp add: loop_finished)
next
  case (returned le a v')
  show ?case
  proof
    assume "snd (withRetry_loop fn n b le a) = Inr v"
    then have "fn a = Inr v" using returned by (simp add: loop_returned)
    then show "\<exists>k. a \<le> k \<and> k \<le> n \<and> fn k = Inr v \<and>
        (\<forall>j. a \<le> j \<and> j < k \<longrightarrow> (\<exists>e. fn j = Inl e \<and> isRetryableTransformError e))"
      using returned by (intro exI[of _ a]) auto
  next
    assume "\<exists>k. a \<le> k \<and> k \<le> n \<and> fn k = Inr v \<and>
        (\<forall>j. a \<le> j \<and> j < k \<longrightarrow> (\<exists>e. fn j = Inl e \<and> isRetryableTransformError e))"
    then obtain k where k: "a \<le> k" "k \<le> n" "fn k = Inr v"
      "\<forall>j. a \<le> j \<and> j < k \<longrightarrow> (\<exists>e. fn j = Inl e \<and> isRetryableTransformError e)" by blast
    have "k = a"
    proof (rule ccontr)
      assume "k \<noteq> a"
      then have "a < k" using k(1) by simp
      then obtain e where "fn a = Inl e" using k(4) by blast
      then show False using returned by simp
    qed
    then show "snd (withRetry_loop fn n b le a) = Inr v" using k returned by (simp add: loop_returned)
  qed
next
  case (gave_up le a e)
  have "\<not> (\<exists>k. a \<le> k \<and> k \<le> n \<and> fn k = Inr v \<and>
        (\<forall>j. a \<le> j \<and> j < k \<longrightarrow> (\<exists>e. fn j = Inl e \<and> isRetryableTransformError e)))"
  proof
    assume "\<exists>k. a \<le> k \<and> k \<le> n \<and> fn k = Inr v \<and>
        (\<forall>j. a \<le> j \<and> j < k \<longrightarrow> (\<exists>e. fn j = Inl e \<and> isRetryableTransformError e))"
    then obtain k where k: "a \<le> k" "k \<le> n" "fn k = Inr v"
      "\<forall>j. a \<le> j \<and> j < k \<longrightarrow> (\<exists>e. fn j = Inl e \<and> isRetryableTransformError e)" by blast
    have "k \<noteq> a" using k(3) gave_up by auto
    then have ak: "a < k" using k(1) by simp
    then have "isRetryableTransformError e" using k(4) gave_up by auto
    then have "n \<le> a" using gave_up by simp
    then show False using ak k(2) by simp
  qed
  then show ?case using gave_up by (simp add: loop_gave_up)
next
  case (retried le a e)
  have "(\<exists>k. a \<le> k \<and> k \<le> n \<and> fn k = Inr v \<and>
        (\<forall>j. a \<le> j \<and> j < k \<longrightarrow> (\<exists>e. fn j = Inl e \<and> isRetryableTransformError e))) \<longleftrightarrow>
     (\<exists>k. a + 1 \<le> k \<and> k \<le> n \<and> fn k = Inr v \<and>
        (\<forall>j. a + 1 \<le> j \<and> j < k \<longrightarrow> (\<exists>e. fn j = Inl e \<and> isRetryableTransformError e)))"
    (is "?L \<longleftrightarrow> ?R")
  proof
    assume ?L
    then obtain k where k: "a \<le> k" "k \<le> n" "fn k = Inr v"
      "\<forall>j. a \<le> j \<and> j < k \<longrightarrow> (\<exists>e. fn j = Inl e \<and> isRetryableTransformError e)" by blast
    have "k \<noteq> a" using k(3) retried.hyps by auto
    then have "a + 1 \<le> k" using k(1) by simp
    then show ?R using k by (intro exI[of _ k]) auto
  next
    assume ?R
    then obtain k where k: "a + 1 \<le> k" "k \<le> n" "fn k = Inr v"
      "\<forall>j. a + 1 \<le> j \<and> j < k \<longrightarrow> (\<exists>e. fn j = Inl e \<and> isRetryableTransformError e)" by blast
    have "\<forall>j. a \<le> j \<and> j < k \<longrightarrow> (\<exists>e. fn j = Inl e \<and> isRetryableTransformError e)"
    proof (intro allI impI)
      fix j assume j: "a \<le> j \<and> j < k"
      show "\<exists>e. fn j = Inl e \<and> isRetryableTransformError e"
      proof (cases "j = a")
        case True then show ?thesis using retried.hyps by auto
      next
        case False then show ?thesis using j k(4) by auto
      qed
    qed
    then show ?L using k by (intro exI[of _ k]) auto
  qed
  then show ?case using retried by (simp add: loop_retried)
qed

section \<open>Traces of compress\<close>

lemma tag_events_variant:
  "ev \<in> set (tag_events v q d tr) \<Longrightarrow> event_variant ev = v"
  by (auto simp add: tag_events_def split: retry_event.splits)

lemma transform_in_tag_events:
  "Transform v q d k \<in> set (tag_events v' q' d' tr) \<longleftrightarrow>
   v = v' \<and> q = q' \<and> d = d' \<and> Attempt k \<in> set tr"
  by (induction tr) (auto simp add: tag_events_def split: retry_event.splits)

lemma filter_transform_tag_events:
  "length (filter (is_transform v) (tag_events v' q d tr)) =
   (if v = v' then length (filter is_attempt tr) else 0)"
  by (induction tr) (auto simp add: tag_events_def split: retry_event.splits)

text \<open>The three ways a run of \<open>compress\<close> goes.\<close>

lemma compress_animated:
  "format = ''gif'' \<Longrightarrow> isAnimatedGif bs \<Longrightarrow>
   preserveAnimation (merge_options DEFAULT_OPTIONS options) \<Longrightarrow>
   compress env bs format options =
     ([], Inr \<lparr> original = bs, isAnimated = True, webp = None, avif = None \<rparr>)"
  by (simp add: compress_def Let_def)

lemma compress_dims_error:
  "\<not> (format = ''gif'' \<and> isAnimatedGif bs \<and>
      preserveAnimation (merge_options DEFAULT_OPTIONS options)) \<Longrightarrow>
   getImageDimensions env bs = Inl e \<Longrightarrow>
   compress env bs format options = ([], Inl e)"
  by (simp add: compress_def Let_def)

lemma compress_run:
  assumes "\<not> (format = ''gif'' \<and> isAnimatedGif bs \<and>
      preserveAnimation (merge_options DEFAULT_OPTIONS options))"
    and "getImageDimensions env bs = Inr (w, h)"
    and "opts = merge_options DEFAULT_OPTIONS options"
    and "td = calculateDimensions (arith env) w h (maxWidth opts) (maxHeight opts)"
    and "ad = calculateDimensions (arith env) w h (min (maxWidth opts) 1600) (min (maxHeight opts) 1600)"
    and "rw = withRetry_loop (compressToFormat env bs WebP (quality opts) td) 2 120 None 1"
    and "ra = withRetry_loop (compressToFormat env bs AVIF (quality opts) ad) 3 120 None 1"
  shows "compress env bs format options =
     (tag_events WebP (quality opts) td (if generateWebp opts then fst rw else []) @
      tag_events AVIF (quality opts) ad (if generateAvif opts then fst ra else []),
      Inr \<lparr> original = bs, isAnimated = False,
            webp = (if generateWebp opts
                    then (case snd rw of Inr v \<Rightarrow> Some v | Inl e \<Rightarrow> None) else None),
            avif = (if generateAvif opts
                    then (case snd ra of Inr v \<Rightarrow> Some v | Inl e \<Rightarrow> None) else None) \<rparr>)"
  using assms
  by (auto simp add: compress_def Let_def catch_null_def withRetry_def tag_events_def
      split: sum.splits)

text \<open>
  The trace of every run is the WebP part followed by the AVIF part, each empty or the
  trace of the retry loop with the limits and the base delay \<open>compress\<close> passes.
\<close>

lemma compress_trace_shape:
  "\<exists>q td ad trW trA.
     fst (compress env bs format options) =
       tag_events WebP q td trW @ tag_events AVIF q ad trA \<and>
     (trW = [] \<or> trW = fst (withRetry_loop (compressToFormat env bs WebP q td) 2 120 None 1)) \<and>
     (trA = [] \<or> trA = fst (withRetry_loop (compressToFormat env bs AVIF q ad) 3 120 None 1))"
proof (cases "format = ''gif'' \<and> isAnimatedGif bs \<and>
    preserveAnimation (merge_options DEFAULT_OPTIONS options)")
  case True
  then have "fst (compress env bs format options) =
      tag_events WebP 0 undefined [] @ tag_events AVIF 0 undefined []"
    by (simp add: compress_animated tag_events_def)
  then show ?thesis by blast
next
  case False
  show ?thesis
  proof (cases "getImageDimensions env bs")
    case (Inl e)
    with False have "fst (compress env bs format options) =
        tag_events WebP 0 undefined [] @ tag_events AVIF 0 undefined []"
      by (simp add: compress_dims_error tag_events_def)
    then show ?thesis by blast
  next
    case (Inr wh)
    obtain w h where wh: "wh = (w, h)" by (cases wh)
    define opts where "opts = merge_options DEFAULT_OPTIONS options"
    define td where "td = calculateDimensions (arith env) w h (maxWidth opts) (maxHeight opts)"
    define ad where "ad = calculateDimensions (arith env) w h (min (maxWidth opts) 1600) (min (maxHeight opts) 1600)"
    define rw where "rw = withRetry_loop (compressToFormat env bs WebP (quality opts) td) 2 120 None 1"
    define ra where "ra = withRetry_loop (compressToFormat env bs AVIF (quality opts) ad) 3 120 None 1"
    have "fst (compress env bs format options) =
        tag_events WebP (quality opts) td (if generateWebp opts then fst rw else []) @
        tag_events AVIF (quality opts) ad (if generateAvif opts then fst ra else [])"
      using compress_run[OF False Inr[unfolded wh] opts_def td_def ad_def rw_def ra_def]
      by simp
    moreover have "(if generateWebp opts then fst rw else []) = [] \<or>
        (if generateWebp opts then fst rw else []) =
          fst (withRetry_loop (compressToFormat env bs WebP (quality opts) td) 2 120 None 1)"
      by (simp add: rw_def)
    moreover have "(if generateAvif opts then fst ra else []) = [] \<or>
        (if generateAvif opts then fst ra else []) =
          fst (withRetry_loop (compressToFormat env bs AVIF (quality opts) ad) 3 120 None 1)"
      by (simp add: ra_def)
    ultimately show ?thesis by blast
  qed
qed

lemma tagged_loop_policy:
  assumes tr: "tr = [] \<or> tr = fst (withRetry_loop (compressToFormat env bs v q d) n 120 None 1)"
    and mem: "Attempt k \<in> set tr"
    and err: "compressToFormat env bs v q d k = Inl e"
  shows "if isRetryableTransformError e \<and> k < n
         then \<exists>pre post. tag_events v q d tr =
                pre @ [Transform v q d k, Wait v (120 * 2 ^ (k - 1)), Transform v q d (Suc k)] @ post
         else \<exists>pre. tag_events v q d tr = pre @ [Transform v q d k]"
proof -
  from tr mem have eq: "tr = fst (withRetry_loop (compressToFormat env bs v q d) n 120 None 1)"
    by auto
  show ?thesis
  proof (cases "isRetryableTransformError e \<and> k < n")
    case True
    then obtain pre post where "tr = pre @ [Attempt k, Sleep (120 * 2 ^ (k - 1)), Attempt (Suc k)] @ post"
      using loop_retry_step[of k "compressToFormat env bs v q d" n 120 None 1 e] mem err eq
      by auto
    then have "tag_events v q d tr =
        tag_events v q d pre @ [Transform v q d k, Wait v (120 * 2 ^ (k - 1)), Transform v q d (Suc k)] @
        tag_events v q d post"
      by (simp add: tag_events_def)
    with True show ?thesis by auto
  next
    case False
    then have "\<not> isRetryableTransformError e \<or> n \<le> k" by auto
    then obtain pre where "tr = pre @ [Attempt k]"
      using loop_last_attempt[of k "compressToFormat env bs v q d" n 120 None 1 e] mem err eq
      by auto
    then have "tag_events v q d tr = tag_events v q d pre @ [Transform v q d k]"
      by (simp add: tag_events_def)
    with False show ?thesis by auto
  qed
qed

text \<open>
  C5. In every run of \<open>compress\<close> the WebP transform is called at most 2 times and the
  AVIF transform at most 3 times. When call \<open>k\<close> of a format throws an error whose
  message (in lower case) contains one of the transient substrings and \<open>k\<close> is below the
  format's limit, the trace continues with a sleep of \<open>120 * 2 ^ (k - 1)\<close> milliseconds
  (120 is the base delay \<open>compress\<close> leaves at its default) and then call \<open>k + 1\<close>.
  When the error is not transient (or the limit is reached), that call is the last
  event of its format.
\<close>

theorem compress_retry_policy:
  "length (filter (is_transform WebP) (fst (compress env bs format options))) \<le> 2 \<and>
   length (filter (is_transform AVIF) (fst (compress env bs format options))) \<le> 3 \<and>
   (\<forall>v q d k e.
      Transform v q d k \<in> set (fst (compress env bs format options)) \<and>
      compressToFormat env bs v q d k = Inl e \<longrightarrow>
      (if isRetryableTransformError e \<and> k < attempts_allowed v
       then \<exists>pre post. fst (compress env bs format options) =
              pre @ [Transform v q d k, Wait v (120 * 2 ^ (k - 1)), Transform v q d (Suc k)] @ post
       else \<exists>pre post. fst (compress env bs format options) = pre @ [Transform v q d k] @ post \<and>
              (\<forall>ev \<in> set post. event_variant ev \<noteq> v)))"
proof -
  obtain q0 td ad trW trA where
    tr: "fst (compress env bs format options) =
           tag_events WebP q0 td trW @ tag_events AVIF q0 ad trA"
    and W: "trW = [] \<or> trW = fst (withRetry_loop (compressToFormat env bs WebP q0 td) 2 120 None 1)"
    and A: "trA = [] \<or> trA = fst (withRetry_loop (compressToFormat env bs AVIF q0 ad) 3 120 None 1)"
    using compress_trace_shape[of env bs format options] by blast
  have cW: "length (filter is_attempt trW) \<le> 2"
    using W loop_count[of "compressToFormat env bs WebP q0 td" 2 120 None 1] by auto
  have cA: "length (filter is_attempt trA) \<le> 3"
    using A loop_count[of "compressToFormat env bs AVIF q0 ad" 3 120 None 1] by auto
  have count_webp: "length (filter (is_transform WebP) (fst (compress env bs format options))) \<le> 2"
    using cW by (simp add: tr filter_transform_tag_events)
  have count_avif: "length (filter (is_transform AVIF) (fst (compress env bs format options))) \<le> 3"
    using cA by (simp add: tr filter_transform_tag_events)
  have steps: "\<forall>v q d k e.
      Transform v q d k \<in> set (fst (compress env bs format options)) \<and>
      compressToFormat env bs v q d k = Inl e \<longrightarrow>
      (if isRetryableTransformError e \<and> k < attempts_allowed v
       then \<exists>pre post. fst (compress env bs format options) =
              pre @ [Transform v q d k, Wait v (120 * 2 ^ (k - 1)), Transform v q d (Suc k)] @ post
       else \<exists>pre post. fst (compress env bs format options) = pre @ [Transform v q d k] @ post \<and>
              (\<forall>ev \<in> set post. event_variant ev \<noteq> v))"
  proof (intro allI impI)
    fix v q d k e
    assume h: "Transform v q d k \<in> set (fst (compress env bs format options)) \<and>
      compressToFormat env bs v q d k = Inl e"
    then have mem: "Transform v q d k \<in> set (tag_events WebP q0 td trW) \<or>
        Transform v q d k \<in> set (tag_events AVIF q0 ad trA)"
      by (simp add: tr)
    from h have err: "compressToFormat env bs v q d k = Inl e" by simp
    from mem show "if isRetryableTransformError e \<and> k < attempts_allowed v
       then \<exists>pre post. fst (compress env bs format options) =
              pre @ [Transform v q d k, Wait v (120 * 2 ^ (k - 1)), Transform v q d (Suc k)] @ post
       else \<exists>pre post. fst (compress env bs format options) = pre @ [Transform v q d k] @ post \<and>
              (\<forall>ev \<in> set post. event_variant ev \<noteq> v)"
    proof
      assume "Transform v q d k \<in> set (tag_events WebP q0 td trW)"
      then have v: "v = WebP" "q = q0" "d = td" and at: "Attempt k \<in> set trW"
        by (simp_all add: transform_in_tag_events)
      note pol = tagged_loop_policy[OF W at err[unfolded v]]
      show ?thesis
      proof (cases "isRetryableTransformError e \<and> k < attempts_allowed v")
        case True
        then obtain pre post where "tag_events WebP q0 td trW =
            pre @ [Transform WebP q0 td k, Wait WebP (120 * 2 ^ (k - 1)), Transform WebP q0 td (Suc k)] @ post"
          using pol v by auto
        then have "fst (compress env bs format options) =
            pre @ [Transform v q d k, Wait v (120 * 2 ^ (k - 1)), Transform v q d (Suc k)] @
            (post @ tag_events AVIF q0 ad trA)"
          by (simp add: tr v)
        with True show ?thesis by metis
      next
        case False
        then obtain pre where "tag_events WebP q0 td trW = pre @ [Transform WebP q0 td k]"
          using pol v by auto
        then have "fst (compress env bs format options) =
            pre @ [Transform v q d k] @ tag_events AVIF q0 ad trA"
          by (simp add: tr v)
        moreover have "\<forall>ev \<in> set (tag_events AVIF q0 ad trA). event_variant ev \<noteq> v"
          using tag_events_variant[of _ AVIF q0 ad trA] v by auto
        ultimately show ?thesis using False by metis
      qed
    next
      assume "Transform v q d k \<in> set (tag_events AVIF q0 ad trA)"
      then have v: "v = AVIF" "q = q0" "d = ad" and at: "Attempt k \<in> set trA"
        by (simp_all add: transform_in_tag_events)
      note pol = tagged_loop_policy[OF A at err[unfolded v]]
      show ?thesis
      proof (cases "isRetryableTransformError e \<and> k < attempts_allowed v")
        case True
        then obtain pre post where "tag_events AVIF q0 ad trA =
            pre @ [Transform AVIF q0 ad k, Wait AVIF (120 * 2 ^ (k - 1)), Transform AVIF q0 ad (Suc k)] @ post"
          using pol v by auto
        then have "fst (compress env bs format options) =
            (tag_events WebP q0 td trW @ pre) @
            [Transform v q d k, Wait v (120 * 2 ^ (k - 1)), Transform v q d (Suc k)] @ post"
          by (simp add: tr v)
        with True show ?thesis by metis
      next
        case False
        then obtain pre where "tag_events AVIF q0 ad trA = pre @ [Transform AVIF q0 ad k]"
          using pol v by auto
        then have "fst (compress env bs format options) =
            (tag_events WebP q0 td trW @ pre) @ [Transform v q d k] @ []"
          by (simp add: tr v)
        moreover have "\<forall>ev \<in> set []. event_variant ev \<noteq> v" by simp
        ultimately show ?thesis using False by metis
      qed
    qed
  qed
  from count_webp count_avif steps show ?thesis by blast
qed

theorem compress_retry_policy_witness:
  "Transform WebP 90 \<lparr>width = Num 3840, height = Num 2880\<rparr> 1
     \<in> set (fst (compress example_env example_image ''jpeg'' no_options)) \<and>
   compressToFormat example_env example_image WebP 90 \<lparr>width = Num 3840, height = Num 2880\<rparr> 1
     = Inl ''Request timeout'' \<and>
   isRetryableTransformError ''Request timeout'' \<and>
   (\<exists>pre post. fst (compress example_env example_image ''jpeg'' no_options) =
      pre @ [Transform WebP 90 \<lparr>width = Num 3840, height = Num 2880\<rparr> 1, Wait WebP 120,
             Transform WebP 90 \<lparr>width = Num 3840, height = Num 2880\<rparr> 2] @ post) \<and>
   Transform AVIF 90 \<lparr>width = Num 1600, height = Num 1200\<rparr> 1
     \<in> set (fst (compress example_env example_image ''jpeg'' no_options)) \<and>
   compressToFormat example_env example_image AVIF 90 \<lparr>width = Num 1600, height = Num 1200\<rparr> 1
     = Inl ''Invalid image'' \<and>
   \<not> isRetryableTransformError ''Invalid image'' \<and>
   (\<exists>pre. fst (compress example_env example_image ''jpeg'' no_options) =
      pre @ [Transform AVIF 90 \<lparr>width = Num 1600, height = Num 1200\<rparr> 1])"
proof -
  let ?tr = "fst (compress example_env example_image ''jpeg'' no_options)"
  let ?dw = "\<lparr>width = Num 3840, height = Num 2880\<rparr>"
  let ?da = "\<lparr>width = Num 1600, height = Num 1200\<rparr>"
  have m1: "Transform WebP 90 ?dw 1 \<in> set ?tr" by code_simp
  have e1: "compressToFormat example_env example_image WebP 90 ?dw 1 = Inl ''Request timeout''"
    by (simp add: example_env_def)
  have r1: "isRetryableTransformError ''Request timeout''" by code_simp
  have m2: "Transform AVIF 90 ?da 1 \<in> set ?tr" by code_simp
  have e2: "compressToFormat example_env example_image AVIF 90 ?da 1 = Inl ''Invalid image''"
    by (simp add: example_env_def)
  have r2: "\<not> isRetryableTransformError ''Invalid image''" by code_simp
  note pol = compress_retry_policy[of example_env example_image "''jpeg''" no_options,
      THEN conjunct2, THEN conjunct2, rule_format]
  have s1: "\<exists>pre post. ?tr = pre @ [Transform WebP 90 ?dw 1, Wait WebP 120, Transform WebP 90 ?dw 2] @ post"
    using pol[of WebP 90 ?dw 1 "''Request timeout''"] m1 e1 r1
    by (simp add: numeral_2_eq_2)
  obtain pre post where pp: "?tr = pre @ [Transform AVIF 90 ?da 1] @ post"
    and none: "\<forall>ev \<in> set post. event_variant ev \<noteq> AVIF"
    using pol[of AVIF 90 ?da 1 "''Invalid image''"] m2 e2 r2 by auto
  have "last ?tr = Transform AVIF 90 ?da 1" by code_simp
  then have "post = []" using pp none by (cases post rule: rev_cases) auto
  then have s2: "\<exists>pre. ?tr = pre @ [Transform AVIF 90 ?da 1]" using pp by auto
  from m1 e1 r1 s1 m2 e2 r2 s2 show ?thesis by blast
qed

section \<open>Animated input\<close>

lemma isAnimatedGif_scan_markers:
  "frameCount \<le> 1 \<Longrightarrow>
   isAnimatedGif_scan frameCount bs \<longleftrightarrow> frameCount + frame_markers bs > 1"
  by (induction frameCount bs rule: isAnimatedGif_scan.induct) (auto simp add: Let_def)

text \<open>The scan answers true exactly when it finds more than one frame marker.\<close>

lemma isAnimatedGif_markers: "isAnimatedGif bs \<longleftrightarrow> frame_markers bs > 1"
  by (simp add: isAnimatedGif_def isAnimatedGif_scan_markers)

text \<open>
  C7 as stated fails: the scan is only consulted when the declared format is \<open>gif\<close>.
  A JPEG whose bytes hold two Image Descriptor markers (0x2C) is transformed, with
  \<open>preserveAnimation\<close> left at its default \<open>true\<close>; so is the byte stream of a
  two-frame GIF when it is declared as \<open>webp\<close>. The JPEG's bytes declared as \<open>gif\<close>
  are left alone: the declared format decides.
\<close>

theorem compress_animated_counterexample:
  "frame_markers example_image > 1 \<and>
   preserveAnimation (merge_options DEFAULT_OPTIONS no_options) \<and>
   fst (compress example_env example_image ''jpeg'' no_options) \<noteq> [] \<and>
   snd (compress example_env example_image ''jpeg'' no_options) =
     Inr \<lparr> original = example_image, isAnimated = False,
           webp = Some example_webp, avif = None \<rparr> \<and>
   frame_markers example_gif > 1 \<and>
   fst (compress example_env example_gif ''webp'' no_options) \<noteq> [] \<and>
   snd (compress example_env example_gif ''webp'' no_options) =
     Inr \<lparr> original = example_gif, isAnimated = False,
           webp = Some example_webp, avif = None \<rparr> \<and>
   compress example_env example_image ''gif'' no_options =
     ([], Inr \<lparr> original = example_image, isAnimated = True, webp = None, avif = None \<rparr>)"
proof -
  have 1: "frame_markers example_image > 1" by code_simp
  have 2: "preserveAnimation (merge_options DEFAULT_OPTIONS no_options)" by code_simp
  have 3: "fst (compress example_env example_image ''jpeg'' no_options) \<noteq> []" by code_simp
  have 4: "snd (compress example_env example_image ''jpeg'' no_options) =
      Inr \<lparr> original = example_image, isAnimated = False, webp = Some example_webp, avif = None \<rparr>"
    by code_simp
  have 5: "frame_markers example_gif > 1" by code_simp
  have 6: "fst (compress example_env example_gif ''webp'' no_options) \<noteq> []" by code_simp
  have 7: "snd (compress example_env example_gif ''webp'' no_options) =
      Inr \<lparr> original = example_gif, isAnimated = False, webp = Some example_webp, avif = None \<rparr>"
    by code_simp
  have 8: "compress example_env example_image ''gif'' no_options =
     ([], Inr \<lparr> original = example_image, isAnimated = True, webp = None, avif = None \<rparr>)"
    by code_simp
  from 1 2 3 4 5 6 7 8 show ?thesis by (intro conjI)
qed

text \<open>
  C7, amended: for every input whose declared format is \<open>gif\<close> and whose bytes hold more
  than one frame marker found by the scan, with \<open>preserveAnimation\<close> true, \<open>compress\<close>
  calls no transform and returns only the original bytes with \<open>isAnimated = true\<close>: no
  WebP or AVIF variant is produced.
\<close>

theorem compress_preserves_animated_gif:
  "format = ''gif'' \<Longrightarrow> frame_markers bs > 1 \<Longrightarrow>
   preserveAnimation (merge_options DEFAULT_OPTIONS options) \<Longrightarrow>
   compress env bs format options =
     ([], Inr \<lparr> original = bs, isAnimated = True, webp = None, avif = None \<rparr>)"
  by (simp add: compress_animated isAnimatedGif_markers)

theorem compress_preserves_animated_gif_witness:
  "frame_markers example_gif > 1 \<and>
   preserveAnimation (merge_options DEFAULT_OPTIONS no_options) \<and>
   compress example_env example_gif ''gif'' no_options =
     ([], Inr \<lparr> original = example_gif, isAnimated = True, webp = None, avif = None \<rparr>)"
proof -
  have 1: "frame_markers example_gif > 1" by code_simp
  have 2: "preserveAnimation (merge_options DEFAULT_OPTIONS no_options)" by code_simp
  from compress_preserves_animated_gif[OF refl 1 2, of example_env] 1 2 show ?thesis by simp
qed

section \<open>Variants of an upload\<close>

lemma withRetry_succeeds:
  "snd (withRetry_loop fn n b None 1) = Inr v \<longleftrightarrow>
   (\<exists>k. 1 \<le> k \<and> k \<le> n \<and> fn k = Inr v \<and>
        (\<forall>j. 1 \<le> j \<and> j < k \<longrightarrow> (\<exists>e. fn j = Inl e \<and> isRetryableTransformError e)))"
  by (rule loop_result)

lemma case_sum_Some:
  "(case r of Inr x \<Rightarrow> Some x | Inl e \<Rightarrow> None) = Some v \<longleftrightarrow> r = Inr v"
  by (cases r) auto

lemma puts_finish_upload:
  "puts (finish_upload env fl tags expiryMinutes info paths ws as ps tr) = ps"
  by (simp add: finish_upload_def Let_def upload_failed_def split: option.splits)

text \<open>The writes of a non-GIF upload with a compression service, once the original is written.\<close>

lemma upload_compressed_puts:
  assumes "getImageInfo uenv (file_bytes file) = Inr info"
    and "isSupportedFormat uenv (info_format info)"
    and "info_format info \<noteq> ''gif''"
    and "compression uenv = Some env"
    and "snd (compress env (file_bytes file) (info_format info) options) = Inr res"
    and "storage_upload uenv (paths_original paths) (file_bytes file) ct"
    and "paths = generatePaths uenv (generateImageId uenv) (info_orientation info) (info_format info)"
    and "ct = getContentType uenv (info_format info)"
  shows "puts (uploadSingleHandler uenv (Some file) tags expiryMinutes options) =
     [(paths_original paths, file_bytes file, ct),
      fst (variant_put (paths_webp paths) ''image/webp'' (webp res) file ct),
      fst (variant_put (paths_avif paths) ''image/avif'' (avif res) file ct)]"
proof -
  obtain tr where c: "compress env (file_bytes file) (info_format info) options = (tr, Inr res)"
    using assms(5) by (cases "compress env (file_bytes file) (info_format info) options") auto
  show ?thesis
    using assms(1-4,6-8) c
    by (simp add: uploadSingleHandler_def Let_def put_ok_def upload_failed_def
        puts_finish_upload)
qed

text \<open>
  C6. For every run of \<open>compress\<close> that is not the animated short cut (and whose
  dimensions can be read), \<open>compress\<close> returns a result; the result holds the WebP image
  exactly when WebP generation is on and one of its at most 2 calls returned it after
  transient errors only, and the AVIF image exactly when AVIF generation is on and one
  of its at most 3 calls returned it after transient errors only: neither condition
  mentions the other format. In the upload handler, a variant the result omits is
  written with the original bytes under the variant's path.
\<close>

theorem compress_variants_independent:
  "(\<not> (format = ''gif'' \<and> isAnimatedGif bs \<and>
        preserveAnimation (merge_options DEFAULT_OPTIONS options)) \<and>
    getImageDimensions env bs = Inr (w, h) \<longrightarrow>
    (let opts = merge_options DEFAULT_OPTIONS options;
         callWebp = compressToFormat env bs WebP (quality opts)
           (calculateDimensions (arith env) w h (maxWidth opts) (maxHeight opts));
         callAvif = compressToFormat env bs AVIF (quality opts)
           (calculateDimensions (arith env) w h (min (maxWidth opts) 1600) (min (maxHeight opts) 1600))
     in \<exists>res. snd (compress env bs format options) = Inr res \<and>
          original res = bs \<and> \<not> isAnimated res \<and>
          (\<forall>v. webp res = Some v \<longleftrightarrow>
             generateWebp opts \<and>
             (\<exists>k. 1 \<le> k \<and> k \<le> 2 \<and> callWebp k = Inr v \<and>
                (\<forall>j. 1 \<le> j \<and> j < k \<longrightarrow>
                   (\<exists>e. callWebp j = Inl e \<and> isRetryableTransformError e)))) \<and>
          (\<forall>v. avif res = Some v \<longleftrightarrow>
             generateAvif opts \<and>
             (\<exists>k. 1 \<le> k \<and> k \<le> 3 \<and> callAvif k = Inr v \<and>
                (\<forall>j. 1 \<le> j \<and> j < k \<longrightarrow>
                   (\<exists>e. callAvif j = Inl e \<and> isRetryableTransformError e)))))) \<and>
   (getImageInfo uenv (file_bytes fl) = Inr info \<and>
    isSupportedFormat uenv (info_format info) \<and>
    info_format info \<noteq> ''gif'' \<and>
    compression uenv = Some env \<and>
    snd (compress env (file_bytes fl) (info_format info) options) = Inr res' \<and>
    paths = generatePaths uenv (generateImageId uenv) (info_orientation info) (info_format info) \<and>
    ct = getContentType uenv (info_format info) \<and>
    storage_upload uenv (paths_original paths) (file_bytes fl) ct \<longrightarrow>
    (webp res' = None \<longrightarrow>
       (paths_webp paths, file_bytes fl, ct)
         \<in> set (puts (uploadSingleHandler uenv (Some fl) tags expiryMinutes options))) \<and>
    (avif res' = None \<longrightarrow>
       (paths_avif paths, file_bytes fl, ct)
         \<in> set (puts (uploadSingleHandler uenv (Some fl) tags expiryMinutes options))))"
proof (intro conjI impI)
  assume h: "\<not> (format = ''gif'' \<and> isAnimatedGif bs \<and>
        preserveAnimation (merge_options DEFAULT_OPTIONS options)) \<and>
    getImageDimensions env bs = Inr (w, h)"
  define opts where "opts = merge_options DEFAULT_OPTIONS options"
  define td where "td = calculateDimensions (arith env) w h (maxWidth opts) (maxHeight opts)"
  define ad where "ad = calculateDimensions (arith env) w h (min (maxWidth opts) 1600) (min (maxHeight opts) 1600)"
  define rw where "rw = withRetry_loop (compressToFormat env bs WebP (quality opts) td) 2 120 None 1"
  define ra where "ra = withRetry_loop (compressToFormat env bs AVIF (quality opts) ad) 3 120 None 1"
  define res where "res = \<lparr> original = bs, isAnimated = False,
            webp = (if generateWebp opts
                    then (case snd rw of Inr v \<Rightarrow> Some v | Inl e \<Rightarrow> None) else None),
            avif = (if generateAvif opts
                    then (case snd ra of Inr v \<Rightarrow> Some v | Inl e \<Rightarrow> None) else None) \<rparr>"
  have r: "snd (compress env bs format options) = Inr res"
    using compress_run[OF conjunct1[OF h] conjunct2[OF h] opts_def td_def ad_def rw_def ra_def]
    by (simp add: res_def)
  have w: "\<forall>v. webp res = Some v \<longleftrightarrow>
             generateWebp opts \<and>
             (\<exists>k. 1 \<le> k \<and> k \<le> 2 \<and> compressToFormat env bs WebP (quality opts) td k = Inr v \<and>
                (\<forall>j. 1 \<le> j \<and> j < k \<longrightarrow>
                   (\<exists>e. compressToFormat env bs WebP (quality opts) td j = Inl e \<and>
                        isRetryableTransformError e)))"
    using withRetry_succeeds[of "compressToFormat env bs WebP (quality opts) td" 2 120]
    by (simp add: res_def rw_def case_sum_Some)
  have a: "\<forall>v. avif res = Some v \<longleftrightarrow>
             generateAvif opts \<and>
             (\<exists>k. 1 \<le> k \<and> k \<le> 3 \<and> compressToFormat env bs AVIF (quality opts) ad k = Inr v \<and>
                (\<forall>j. 1 \<le> j \<and> j < k \<longrightarrow>
                   (\<exists>e. compressToFormat env bs AVIF (quality opts) ad j = Inl e \<and>
                        isRetryableTransformError e)))"
    using withRetry_succeeds[of "compressToFormat env bs AVIF (quality opts) ad" 3 120]
    by (simp add: res_def ra_def case_sum_Some)
  have o: "original res = bs \<and> \<not> isAnimated res" by (simp add: res_def)
  show "let opts = merge_options DEFAULT_OPTIONS options;
         callWebp = compressToFormat env bs WebP (quality opts)
           (calculateDimensions (arith env) w h (maxWidth opts) (maxHeight opts));
         callAvif = compressToFormat env bs AVIF (quality opts)
           (calculateDimensions (arith env) w h (min (maxWidth opts) 1600) (min (maxHeight opts) 1600))
     in \<exists>res. snd (compress env bs format options) = Inr res \<and>
          original res = bs \<and> \<not> isAnimated res \<and>
          (\<forall>v. webp res = Some v \<longleftrightarrow>
             generateWebp opts \<and>
             (\<exists>k. 1 \<le> k \<and> k \<le> 2 \<and> callWebp k = Inr v \<and>
                (\<forall>j. 1 \<le> j \<and> j < k \<longrightarrow>
                   (\<exists>e. callWebp j = Inl e \<and> isRetryableTransformError e)))) \<and>
          (\<forall>v. avif res = Some v \<longleftrightarrow>
             generateAvif opts \<and>
             (\<exists>k. 1 \<le> k \<and> k \<le> 3 \<and> callAvif k = Inr v \<and>
                (\<forall>j. 1 \<le> j \<and> j < k \<longrightarrow>
                   (\<exists>e. callAvif j = Inl e \<and> isRetryableTransformError e))))"
    unfolding Let_def opts_def[symmetric] td_def[symmetric] ad_def[symmetric]
    using r o w a by blast
next
  assume h: "getImageInfo uenv (file_bytes fl) = Inr info \<and>
    isSupportedFormat uenv (info_format info) \<and>
    info_format info \<noteq> ''gif'' \<and>
    compression uenv = Some env \<and>
    snd (compress env (file_bytes fl) (info_format info) options) = Inr res' \<and>
    paths = generatePaths uenv (generateImageId uenv) (info_orientation info) (info_format info) \<and>
    ct = getContentType uenv (info_format info) \<and>
    storage_upload uenv (paths_original paths) (file_bytes fl) ct"
  assume n: "webp res' = None"
  have "puts (uploadSingleHandler uenv (Some fl) tags expiryMinutes options) =
     [(paths_original paths, file_bytes fl, ct),
      fst (variant_put (paths_webp paths) ''image/webp'' (webp res') fl ct),
      fst (variant_put (paths_avif paths) ''image/avif'' (avif res') fl ct)]"
    using h by (intro upload_compressed_puts) auto
  then show "(paths_webp paths, file_bytes fl, ct)
         \<in> set (puts (uploadSingleHandler uenv (Some fl) tags expiryMinutes options))"
    using n by (simp add: variant_put_def)
next
  assume h: "getImageInfo uenv (file_bytes fl) = Inr info \<and>
    isSupportedFormat uenv (info_format info) \<and>
    info_format info \<noteq> ''gif'' \<and>
    compression uenv = Some env \<and>
    snd (compress env (file_bytes fl) (info_format info) options) = Inr res' \<and>
    paths = generatePaths uenv (generateImageId uenv) (info_orientation info) (info_format info) \<and>
    ct = getContentType uenv (info_format info) \<and>
    storage_upload uenv (paths_original paths) (file_bytes fl) ct"
  assume n: "avif res' = None"
  have "puts (uploadSingleHandler uenv (Some fl) tags expiryMinutes options) =
     [(paths_original paths, file_bytes fl, ct),
      fst (variant_put (paths_webp paths) ''image/webp'' (webp res') fl ct),
      fst (variant_put (paths_avif paths) ''image/avif'' (avif res') fl ct)]"
    using h by (intro upload_compressed_puts) auto
  then show "(paths_avif paths, file_bytes fl, ct)
         \<in> set (puts (uploadSingleHandler uenv (Some fl) tags expiryMinutes options))"
    using n by (simp add: variant_put_def)
qed

theorem compress_variants_independent_witness:
  "\<not> (''jpeg'' = ''gif'' \<and> isAnimatedGif example_image \<and>
        preserveAnimation (merge_options DEFAULT_OPTIONS no_options)) \<and>
   getImageDimensions example_env example_image = Inr (4000, 3000) \<and>
   (\<exists>res. snd (compress example_env example_image ''jpeg'' no_options) = Inr res \<and>
      webp res = Some example_webp \<and> avif res = None) \<and>
   storage_upload example_upload_env ''original/landscape/img1.jpeg'' example_image ''image/jpeg'' \<and>
   (''landscape/avif/img1.avif'', example_image, ''image/jpeg'')
     \<in> set (puts (uploadSingleHandler example_upload_env (Some example_file) [] 0 no_options))"
proof -
  define info where "info = \<lparr> info_format = ''jpeg'', info_width = 4000,
     info_height = 3000, info_orientation = ''landscape'' \<rparr>"
  define paths where "paths = \<lparr> paths_original = ''original/landscape/img1.jpeg'',
     paths_webp = ''landscape/webp/img1.webp'', paths_avif = ''landscape/avif/img1.avif'' \<rparr>"
  define res' where "res' = \<lparr> original = example_image, isAnimated = False,
     webp = Some example_webp, avif = None \<rparr>"
  note t = compress_variants_independent[where format = "''jpeg''" and bs = example_image
      and options = no_options and env = example_env and w = 4000 and h = 3000
      and uenv = example_upload_env and fl = example_file and info = info
      and res' = res' and paths = paths and ct = "''image/jpeg''" and tags = "[]"
      and expiryMinutes = 0]
  have h1: "\<not> (''jpeg'' = ''gif'' \<and> isAnimatedGif example_image \<and>
        preserveAnimation (merge_options DEFAULT_OPTIONS no_options))" by simp
  have h2: "getImageDimensions example_env example_image = Inr (4000, 3000)"
    by (simp add: example_env_def)
  obtain res where r: "snd (compress example_env example_image ''jpeg'' no_options) = Inr res"
    and W: "\<forall>v. webp res = Some v \<longleftrightarrow>
       generateWebp (merge_options DEFAULT_OPTIONS no_options) \<and>
       (\<exists>k. 1 \<le> k \<and> k \<le> 2 \<and>
          compressToFormat example_env example_image WebP
            (quality (merge_options DEFAULT_OPTIONS no_options))
            (calculateDimensions (arith example_env) 4000 3000
               (maxWidth (merge_options DEFAULT_OPTIONS no_options))
               (maxHeight (merge_options DEFAULT_OPTIONS no_options))) k = Inr v \<and>
          (\<forall>j. 1 \<le> j \<and> j < k \<longrightarrow>
             (\<exists>e. compressToFormat example_env example_image WebP
                (quality (merge_options DEFAULT_OPTIONS no_options))
                (calculateDimensions (arith example_env) 4000 3000
                   (maxWidth (merge_options DEFAULT_OPTIONS no_options))
                   (maxHeight (merge_options DEFAULT_OPTIONS no_options))) j = Inl e \<and>
                isRetryableTransformError e)))"
    and A: "\<forall>v. avif res = Some v \<longleftrightarrow>
       generateAvif (merge_options DEFAULT_OPTIONS no_options) \<and>
       (\<exists>k. 1 \<le> k \<and> k \<le> 3 \<and>
          compressToFormat example_env example_image AVIF
            (quality (merge_options DEFAULT_OPTIONS no_options))
            (calculateDimensions (arith example_env) 4000 3000
               (min (maxWidth (merge_options DEFAULT_OPTIONS no_options)) 1600)
               (min (maxHeight (merge_options DEFAULT_OPTIONS no_options)) 1600)) k = Inr v \<and>
          (\<forall>j. 1 \<le> j \<and> j < k \<longrightarrow>
             (\<exists>e. compressToFormat example_env example_image AVIF
                (quality (merge_options DEFAULT_OPTIONS no_options))
                (calculateDimensions (arith example_env) 4000 3000
                   (min (maxWidth (merge_options DEFAULT_OPTIONS no_options)) 1600)
                   (min (maxHeight (merge_options DEFAULT_OPTIONS no_options)) 1600)) j = Inl e \<and>
                isRetryableTransformError e)))"
    using t[THEN conjunct1, rule_format, OF conjI[OF h1 h2], unfolded Let_def] by blast
  have gw: "generateWebp (merge_options DEFAULT_OPTIONS no_options)" by code_simp
  have rt: "isRetryableTransformError ''Request timeout''" by code_simp
  have cw: "\<And>q d k. compressToFormat example_env example_image WebP q d k =
      (if k < 2 then Inl ''Request timeout'' else Inr example_webp)"
    by (simp add: example_env_def)
  have ca: "\<And>q d k. compressToFormat example_env example_image AVIF q d k = Inl ''Invalid image''"
    by (simp add: example_env_def)
  have "webp res = Some example_webp"
  proof -
    have "\<exists>k. 1 \<le> k \<and> k \<le> (2::nat) \<and>
        (if k < 2 then Inl ''Request timeout'' else Inr example_webp) = (Inr example_webp :: string + CompressedImage) \<and>
        (\<forall>j. 1 \<le> j \<and> j < k \<longrightarrow>
           (\<exists>e. (if j < 2 then Inl ''Request timeout'' else Inr example_webp) = (Inl e :: string + CompressedImage) \<and>
                isRetryableTransformError e))"
      using rt by (intro exI[of _ 2]) auto
    then show ?thesis using W gw by (simp add: cw)
  qed
  moreover have "avif res = None"
  proof (cases "avif res")
    case None then show ?thesis .
  next
    case (Some v)
    then show ?thesis using A by (simp add: ca)
  qed
  ultimately have c: "\<exists>res. snd (compress example_env example_image ''jpeg'' no_options) = Inr res \<and>
      webp res = Some example_webp \<and> avif res = None"
    using r by blast
  have u1: "getImageInfo example_upload_env (file_bytes example_file) = Inr info"
    by (simp add: example_upload_env_def info_def)
  have u2: "isSupportedFormat example_upload_env (info_format info)"
    by (simp add: example_upload_env_def)
  have u3: "info_format info \<noteq> ''gif''" by (simp add: info_def)
  have u4: "compression example_upload_env = Some example_env"
    by (simp add: example_upload_env_def)
  have u5: "snd (compress example_env (file_bytes example_file) (info_format info) no_options) = Inr res'"
    unfolding info_def res'_def by code_simp
  have u6: "paths = generatePaths example_upload_env (generateImageId example_upload_env)
      (info_orientation info) (info_format info)"
    by (simp add: example_upload_env_def info_def paths_def)
  have u7: "''image/jpeg'' = getContentType example_upload_env (info_format info)"
    by (simp add: example_upload_env_def)
  have u8: "storage_upload example_upload_env (paths_original paths) (file_bytes example_file) ''image/jpeg''"
    by (simp add: example_upload_env_def)
  have n: "avif res' = None" by (simp add: res'_def)
  have "(paths_avif paths, file_bytes example_file, ''image/jpeg'')
      \<in> set (puts (uploadSingleHandler example_upload_env (Some example_file) [] 0 no_options))"
    using t[THEN conjunct2] u1 u2 u3 u4 u5 u6 u7 u8 n by blast
  then have p: "(''landscape/avif/img1.avif'', example_image, ''image/jpeg'')
     \<in> set (puts (uploadSingleHandler example_upload_env (Some example_file) [] 0 no_options))"
    by (simp add: paths_def example_file_def)
  have s: "storage_upload example_upload_env ''original/landscape/img1.jpeg'' example_image ''image/jpeg''"
    by (simp add: example_upload_env_def)
  from h1 h2 c s p show ?thesis by blast
qed

section \<open>The paths an upload records\<close>

lemma saved_upload_failed: "saved (upload_failed ps tr) = None"
  by (simp add: upload_failed_def)

lemma saved_finish_upload:
  "saved (finish_upload env fl tags expiryMinutes info paths ws as ps tr) = Some md \<Longrightarrow>
   img_paths md = paths \<and> img_format md = info_format info \<and>
   sizes_webp (img_sizes md) = ws \<and> sizes_avif (img_sizes md) = as \<and>
   puts (finish_upload env fl tags expiryMinutes info paths ws as ps tr) = ps \<and>
   transforms (finish_upload env fl tags expiryMinutes info paths ws as ps tr) = tr"
  by (auto simp add: finish_upload_def Let_def upload_failed_def
      split: if_splits option.splits)

text \<open>A saved record, by the branch of the handler that produced it.\<close>

lemma upload_saved_cases:
  assumes "saved (uploadSingleHandler env fileField tags expiryMinutes options) = Some md"
  obtains fl info where "fileField = Some fl"
    and "getImageInfo env (file_bytes fl) = Inr info"
    and "isSupportedFormat env (info_format info)"
proof -
  from assms obtain fl where f: "fileField = Some fl"
    by (cases fileField) (auto simp add: uploadSingleHandler_def)
  from assms f obtain info where i: "getImageInfo env (file_bytes fl) = Inr info"
    by (cases "getImageInfo env (file_bytes fl)")
      (auto simp add: uploadSingleHandler_def saved_upload_failed)
  from assms f i have "isSupportedFormat env (info_format info)"
    by (auto simp add: uploadSingleHandler_def split: if_splits)
  with f i that show ?thesis by blast
qed

lemma upload_gif:
  assumes "getImageInfo env (file_bytes fl) = Inr info"
    and "isSupportedFormat env (info_format info)"
    and "info_format info = ''gif''"
  shows "uploadSingleHandler env (Some fl) tags expiryMinutes options =
     (let paths = generatePaths env (generateImageId env) (info_orientation info) (info_format info);
          putOriginal = (paths_original paths, file_bytes fl, getContentType env (info_format info))
      in if \<not> put_ok env putOriginal then upload_failed [putOriginal] []
         else finish_upload env fl tags expiryMinutes info paths 0 0 [putOriginal] [])"
  using assms by (simp add: uploadSingleHandler_def Let_def)

lemma upload_plain:
  assumes "getImageInfo env (file_bytes fl) = Inr info"
    and "isSupportedFormat env (info_format info)"
    and "info_format info \<noteq> ''gif''"
    and "compression env = None"
  shows "uploadSingleHandler env (Some fl) tags expiryMinutes options =
     (let paths = generatePaths env (generateImageId env) (info_orientation info) (info_format info);
          ct = getContentType env (info_format info);
          ps = [(paths_original paths, file_bytes fl, ct), (paths_webp paths, file_bytes fl, ct),
                (paths_avif paths, file_bytes fl, ct)]
      in if \<not> list_all (put_ok env) ps then upload_failed ps []
         else finish_upload env fl tags expiryMinutes info paths
                (length (file_bytes fl)) (length (file_bytes fl)) ps [])"
  using assms by (simp add: uploadSingleHandler_def Let_def)

lemma upload_compressed:
  assumes "getImageInfo env (file_bytes fl) = Inr info"
    and "isSupportedFormat env (info_format info)"
    and "info_format info \<noteq> ''gif''"
    and "compression env = Some cenv"
    and "compress cenv (file_bytes fl) (info_format info) options = (tr, Inr res)"
  shows "uploadSingleHandler env (Some fl) tags expiryMinutes options =
     (let paths = generatePaths env (generateImageId env) (info_orientation info) (info_format info);
          ct = getContentType env (info_format info);
          putOriginal = (paths_original paths, file_bytes fl, ct);
          w = variant_put (paths_webp paths) ''image/webp'' (webp res) fl ct;
          a = variant_put (paths_avif paths) ''image/avif'' (avif res) fl ct
      in if \<not> put_ok env putOriginal then upload_failed [putOriginal] tr
         else if \<not> (put_ok env (fst w) \<and> put_ok env (fst a))
         then upload_failed [putOriginal, fst w, fst a] tr
         else finish_upload env fl tags expiryMinutes info paths (snd w) (snd a)
                [putOriginal, fst w, fst a] tr)"
  using assms by (simp add: uploadSingleHandler_def Let_def)

lemma upload_compress_threw:
  assumes "getImageInfo env (file_bytes fl) = Inr info"
    and "isSupportedFormat env (info_format info)"
    and "info_format info \<noteq> ''gif''"
    and "compression env = Some cenv"
    and "compress cenv (file_bytes fl) (info_format info) options = (tr, Inl e)"
  shows "saved (uploadSingleHandler env (Some fl) tags expiryMinutes options) = None"
  using assms by (simp add: uploadSingleHandler_def Let_def saved_upload_failed)

text \<open>
  C3 as stated fails: the record always carries the generated variant paths. In the
  example upload the AVIF transform fails, compression yields no AVIF variant, and the
  saved record still has a non-empty avif path (the original bytes were written there).
\<close>

theorem upload_paths_counterexample:
  "snd (compress example_env example_image ''jpeg'' no_options) =
     Inr \<lparr> original = example_image, isAnimated = False,
           webp = Some example_webp, avif = None \<rparr> \<and>
   saved (uploadSingleHandler example_upload_env (Some example_file) [] 0 no_options) \<noteq> None \<and>
   paths_avif (img_paths (the
     (saved (uploadSingleHandler example_upload_env (Some example_file) [] 0 no_options)))) =
     ''landscape/avif/img1.avif'' \<and>
   puts (uploadSingleHandler example_upload_env (Some example_file) [] 0 no_options) =
     [(''original/landscape/img1.jpeg'', example_image, ''image/jpeg''),
      (''landscape/webp/img1.webp'', data example_webp, ''image/webp''),
      (''landscape/avif/img1.avif'', example_image, ''image/jpeg'')]"
proof -
  have 1: "snd (compress example_env example_image ''jpeg'' no_options) =
      Inr \<lparr> original = example_image, isAnimated = False, webp = Some example_webp, avif = None \<rparr>"
    by code_simp
  have 2: "saved (uploadSingleHandler example_upload_env (Some example_file) [] 0 no_options) \<noteq> None"
    by code_simp
  have 3: "paths_avif (img_paths (the
     (saved (uploadSingleHandler example_upload_env (Some example_file) [] 0 no_options)))) =
     ''landscape/avif/img1.avif''"
    by code_simp
  have 4: "puts (uploadSingleHandler example_upload_env (Some example_file) [] 0 no_options) =
     [(''original/landscape/img1.jpeg'', example_image, ''image/jpeg''),
      (''landscape/webp/img1.webp'', data example_webp, ''image/webp''),
      (''landscape/avif/img1.avif'', example_image, ''image/jpeg'')]"
    by code_simp
  from 1 2 3 4 show ?thesis by (intro conjI)
qed

text \<open>
  C3, amended. For every image record produced by an upload, the stored webp path
  (respectively avif path) is the path generated from the image id, orientation and
  format, and it is present only if an object was written under it during the upload:
  for a non-GIF image the derived WebP (AVIF) variant when compression produced one, and
  a copy of the original bytes otherwise (compression yielded no variant, or there is no
  compression service); the size recorded for the variant is the size of what was
  written. For a GIF nothing is derived and only the original is written; its recorded
  variant paths are empty provided path generation gives no variant path for a GIF
  (\<open>StorageService.generatePaths\<close> is a collaborator of the handler, so this is a
  hypothesis of that clause). Every write of an upload that saved a record was accepted
  by the store.
\<close>

theorem upload_records_generated_paths:
  "saved (uploadSingleHandler env fileField tags expiryMinutes options) = Some md \<longrightarrow>
   (\<exists>fl info.
      fileField = Some fl \<and> getImageInfo env (file_bytes fl) = Inr info \<and>
      img_format md = info_format info \<and>
      img_paths md =
        generatePaths env (generateImageId env) (info_orientation info) (info_format info) \<and>
      (\<forall>p \<in> set (puts (uploadSingleHandler env fileField tags expiryMinutes options)).
         storage_upload env (fst p) (fst (snd p)) (snd (snd p))) \<and>
      (info_format info = ''gif'' \<longrightarrow>
         puts (uploadSingleHandler env fileField tags expiryMinutes options) =
           [(paths_original (img_paths md), file_bytes fl, getContentType env (info_format info))] \<and>
         transforms (uploadSingleHandler env fileField tags expiryMinutes options) = [] \<and>
         sizes_webp (img_sizes md) = 0 \<and> sizes_avif (img_sizes md) = 0) \<and>
      (info_format info \<noteq> ''gif'' \<longrightarrow>
         (\<exists>wput aput.
            puts (uploadSingleHandler env fileField tags expiryMinutes options) =
              [(paths_original (img_paths md), file_bytes fl, getContentType env (info_format info)),
               wput, aput] \<and>
            (compression env = None \<longrightarrow>
               wput = (paths_webp (img_paths md), file_bytes fl,
                       getContentType env (info_format info)) \<and>
               sizes_webp (img_sizes md) = length (file_bytes fl) \<and>
               aput = (paths_avif (img_paths md), file_bytes fl,
                       getContentType env (info_format info)) \<and>
               sizes_avif (img_sizes md) = length (file_bytes fl)) \<and>
            (\<forall>cenv. compression env = Some cenv \<longrightarrow>
               (\<exists>res.
                  snd (compress cenv (file_bytes fl) (info_format info) options) = Inr res \<and>
                  transforms (uploadSingleHandler env fileField tags expiryMinutes options) =
                    fst (compress cenv (file_bytes fl) (info_format info) options) \<and>
                  (\<forall>v. webp res = Some v \<longrightarrow>
                     wput = (paths_webp (img_paths md), data v, ''image/webp'') \<and>
                     sizes_webp (img_sizes md) = size v) \<and>
                  (webp res = None \<longrightarrow>
                     wput = (paths_webp (img_paths md), file_bytes fl,
                             getContentType env (info_format info)) \<and>
                     sizes_webp (img_sizes md) = length (file_bytes fl)) \<and>
                  (\<forall>v. avif res = Some v \<longrightarrow>
                     aput = (paths_avif (img_paths md), data v, ''image/avif'') \<and>
                     sizes_avif (img_sizes md) = size v) \<and>
                  (avif res = None \<longrightarrow>
                     aput = (paths_avif (img_paths md), file_bytes fl,
                             getContentType env (info_format info)) \<and>
                     sizes_avif (img_sizes md) = length (file_bytes fl)))))) \<and>
      ((\<forall>i ori. paths_webp (generatePaths env i ori ''gif'') = [] \<and>
                paths_avif (generatePaths env i ori ''gif'') = []) \<longrightarrow>
         (paths_webp (img_paths md) \<noteq> [] \<longrightarrow>
            (\<exists>body mime. (paths_webp (img_paths md), body, mime)
               \<in> set (puts (uploadSingleHandler env fileField tags expiryMinutes options)))) \<and>
         (paths_avif (img_paths md) \<noteq> [] \<longrightarrow>
            (\<exists>body mime. (paths_avif (img_paths md), body, mime)
               \<in> set (puts (uploadSingleHandler env fileField tags expiryMinutes options)))) \<and>
         (info_format info = ''gif'' \<longrightarrow>
            paths_webp (img_paths md) = [] \<and> paths_avif (img_paths md) = [])))"
proof
  define out where "out = uploadSingleHandler env fileField tags expiryMinutes options"
  assume "saved (uploadSingleHandler env fileField tags expiryMinutes options) = Some md"
  then have s: "saved out = Some md" by (simp add: out_def)
  from upload_saved_cases[OF s[unfolded out_def]] obtain fl info where f: "fileField = Some fl"
    and i: "getImageInfo env (file_bytes fl) = Inr info"
    and sup: "isSupportedFormat env (info_format info)"
    by blast
  define paths where "paths =
    generatePaths env (generateImageId env) (info_orientation info) (info_format info)"
  define ct where "ct = getContentType env (info_format info)"
  have main: "img_format md = info_format info \<and> img_paths md = paths \<and>
      (\<forall>p \<in> set (puts out). storage_upload env (fst p) (fst (snd p)) (snd (snd p))) \<and>
      (info_format info = ''gif'' \<longrightarrow>
         puts out = [(paths_original paths, file_bytes fl, ct)] \<and>
         transforms out = [] \<and>
         sizes_webp (img_sizes md) = 0 \<and> sizes_avif (img_sizes md) = 0) \<and>
      (info_format info \<noteq> ''gif'' \<longrightarrow>
         (\<exists>wput aput.
            puts out = [(paths_original paths, file_bytes fl, ct), wput, aput] \<and>
            (compression env = None \<longrightarrow>
               wput = (paths_webp paths, file_bytes fl, ct) \<and>
               sizes_webp (img_sizes md) = length (file_bytes fl) \<and>
               aput = (paths_avif paths, file_bytes fl, ct) \<and>
               sizes_avif (img_sizes md) = length (file_bytes fl)) \<and>
            (\<forall>cenv. compression env = Some cenv \<longrightarrow>
               (\<exists>res.
                  snd (compress cenv (file_bytes fl) (info_format info) options) = Inr res \<and>
                  transforms out = fst (compress cenv (file_bytes fl) (info_format info) options) \<and>
                  (\<forall>v. webp res = Some v \<longrightarrow>
                     wput = (paths_webp paths, data v, ''image/webp'') \<and>
                     sizes_webp (img_sizes md) = size v) \<and>
                  (webp res = None \<longrightarrow>
                     wput = (paths_webp paths, file_bytes fl, ct) \<and>
                     sizes_webp (img_sizes md) = length (file_bytes fl)) \<and>
                  (\<forall>v. avif res = Some v \<longrightarrow>
                     aput = (paths_avif paths, data v, ''image/avif'') \<and>
                     sizes_avif (img_sizes md) = size v) \<and>
                  (avif res = None \<longrightarrow>
                     aput = (paths_avif paths, file_bytes fl, ct) \<and>
                     sizes_avif (img_sizes md) = length (file_bytes fl)))))) \<and>
      (info_format info \<noteq> ''gif'' \<longrightarrow>
         (\<exists>b1 m1 b2 m2. puts out = [(paths_original paths, file_bytes fl, ct),
            (paths_webp paths, b1, m1), (paths_avif paths, b2, m2)]))"
  proof (cases "info_format info = ''gif''")
    case True
    define po where "po = (paths_original paths, file_bytes fl, ct)"
    have run: "out = (if \<not> put_ok env po then upload_failed [po] []
         else finish_upload env fl tags expiryMinutes info paths 0 0 [po] [])"
      unfolding out_def f upload_gif[OF i sup True]
      by (simp add: Let_def paths_def ct_def po_def)
    from s run have ok: "put_ok env po"
      and fin: "out = finish_upload env fl tags expiryMinutes info paths 0 0 [po] []"
      by (auto simp add: saved_upload_failed split: if_splits)
    from saved_finish_upload[OF s[unfolded fin]] fin
    have "img_paths md = paths" "img_format md = info_format info"
      "sizes_webp (img_sizes md) = 0" "sizes_avif (img_sizes md) = 0"
      "puts out = [po]" "transforms out = []"
      by simp_all
    then show ?thesis using True ok by (simp add: po_def put_ok_def)
  next
    case False
    note ng = False
    show ?thesis
    proof (cases "compression env")
      case None
      define ps where "ps = [(paths_original paths, file_bytes fl, ct),
          (paths_webp paths, file_bytes fl, ct), (paths_avif paths, file_bytes fl, ct)]"
      have run: "out = (if \<not> list_all (put_ok env) ps then upload_failed ps []
         else finish_upload env fl tags expiryMinutes info paths
                (length (file_bytes fl)) (length (file_bytes fl)) ps [])"
        unfolding out_def f upload_plain[OF i sup ng None]
        by (simp add: Let_def paths_def ct_def ps_def)
      from s run have ok: "list_all (put_ok env) ps"
        and fin: "out = finish_upload env fl tags expiryMinutes info paths
                (length (file_bytes fl)) (length (file_bytes fl)) ps []"
        by (auto simp add: saved_upload_failed split: if_splits)
      from saved_finish_upload[OF s[unfolded fin]] fin
      have "img_paths md = paths" "img_format md = info_format info"
        "sizes_webp (img_sizes md) = length (file_bytes fl)"
        "sizes_avif (img_sizes md) = length (file_bytes fl)"
        "puts out = ps"
        by simp_all
      then show ?thesis using ng None ok by (simp add: ps_def put_ok_def)
    next
      case (Some cenv)
      obtain tr r where c: "compress cenv (file_bytes fl) (info_format info) options = (tr, r)"
        by (cases "compress cenv (file_bytes fl) (info_format info) options")
      have "\<exists>res. r = Inr res"
      proof (cases r)
        case (Inl e)
        from upload_compress_threw[OF i sup ng Some c[unfolded Inl]] s
        show ?thesis by (simp add: out_def f)
      next
        case (Inr res)
        then show ?thesis by blast
      qed
      then obtain res where r: "r = Inr res" by blast
      define po where "po = (paths_original paths, file_bytes fl, ct)"
      define w where "w = variant_put (paths_webp paths) ''image/webp'' (webp res) fl ct"
      define a where "a = variant_put (paths_avif paths) ''image/avif'' (avif res) fl ct"
      have run: "out = (if \<not> put_ok env po then upload_failed [po] tr
         else if \<not> (put_ok env (fst w) \<and> put_ok env (fst a))
         then upload_failed [po, fst w, fst a] tr
         else finish_upload env fl tags expiryMinutes info paths (snd w) (snd a)
                [po, fst w, fst a] tr)"
        unfolding out_def f upload_compressed[OF i sup ng Some c[unfolded r]]
        by (simp add: Let_def paths_def ct_def po_def w_def a_def)
      from s run have ok: "put_ok env po \<and> put_ok env (fst w) \<and> put_ok env (fst a)"
        and fin: "out = finish_upload env fl tags expiryMinutes info paths (snd w) (snd a)
                [po, fst w, fst a] tr"
        by (auto simp add: saved_upload_failed split: if_splits)
      from saved_finish_upload[OF s[unfolded fin]] fin
      have m: "img_paths md = paths" "img_format md = info_format info"
        "sizes_webp (img_sizes md) = snd w" "sizes_avif (img_sizes md) = snd a"
        "puts out = [po, fst w, fst a]" "transforms out = tr"
        by simp_all
      have wv: "(\<forall>v. webp res = Some v \<longrightarrow>
           fst w = (paths_webp paths, data v, ''image/webp'') \<and> snd w = size v) \<and>
          (webp res = None \<longrightarrow>
           fst w = (paths_webp paths, file_bytes fl, ct) \<and> snd w = length (file_bytes fl))"
        by (simp add: w_def variant_put_def)
      have av: "(\<forall>v. avif res = Some v \<longrightarrow>
           fst a = (paths_avif paths, data v, ''image/avif'') \<and> snd a = size v) \<and>
          (avif res = None \<longrightarrow>
           fst a = (paths_avif paths, file_bytes fl, ct) \<and> snd a = length (file_bytes fl))"
        by (simp add: a_def variant_put_def)
      have all: "\<forall>p \<in> set (puts out). storage_upload env (fst p) (fst (snd p)) (snd (snd p))"
        using ok m(5) by (auto simp add: put_ok_def split: prod.splits)
      have cr: "snd (compress cenv (file_bytes fl) (info_format info) options) = Inr res"
        "fst (compress cenv (file_bytes fl) (info_format info) options) = tr"
        using c r by simp_all
      have "\<exists>wput aput.
            puts out = [(paths_original paths, file_bytes fl, ct), wput, aput] \<and>
            (compression env = None \<longrightarrow>
               wput = (paths_webp paths, file_bytes fl, ct) \<and>
               sizes_webp (img_sizes md) = length (file_bytes fl) \<and>
               aput = (paths_avif paths, file_bytes fl, ct) \<and>
               sizes_avif (img_sizes md) = length (file_bytes fl)) \<and>
            (\<forall>cenv. compression env = Some cenv \<longrightarrow>
               (\<exists>res.
                  snd (compress cenv (file_bytes fl) (info_format info) options) = Inr res \<and>
                  transforms out = fst (compress cenv (file_bytes fl) (info_format info) options) \<and>
                  (\<forall>v. webp res = Some v \<longrightarrow>
                     wput = (paths_webp paths, data v, ''image/webp'') \<and>
                     sizes_webp (img_sizes md) = size v) \<and>
                  (webp res = None \<longrightarrow>
                     wput = (paths_webp paths, file_bytes fl, ct) \<and>
                     sizes_webp (img_sizes md) = length (file_bytes fl)) \<and>
                  (\<forall>v. avif res = Some v \<longrightarrow>
                     aput = (paths_avif paths, data v, ''image/avif'') \<and>
                     sizes_avif (img_sizes md) = size v) \<and>
                  (avif res = None \<longrightarrow>
                     aput = (paths_avif paths, file_bytes fl, ct) \<and>
                     sizes_avif (img_sizes md) = length (file_bytes fl))))"
      proof -
        have p: "puts out = [(paths_original paths, file_bytes fl, ct), fst w, fst a]"
          using m(5) by (simp add: po_def)
        have q: "\<exists>res.
                  snd (compress cenv (file_bytes fl) (info_format info) options) = Inr res \<and>
                  transforms out = fst (compress cenv (file_bytes fl) (info_format info) options) \<and>
                  (\<forall>v. webp res = Some v \<longrightarrow>
                     fst w = (paths_webp paths, data v, ''image/webp'') \<and>
                     sizes_webp (img_sizes md) = size v) \<and>
                  (webp res = None \<longrightarrow>
                     fst w = (paths_webp paths, file_bytes fl, ct) \<and>
                     sizes_webp (img_sizes md) = length (file_bytes fl)) \<and>
                  (\<forall>v. avif res = Some v \<longrightarrow>
                     fst a = (paths_avif paths, data v, ''image/avif'') \<and>
                     sizes_avif (img_sizes md) = size v) \<and>
                  (avif res = None \<longrightarrow>
                     fst a = (paths_avif paths, file_bytes fl, ct) \<and>
                     sizes_avif (img_sizes md) = length (file_bytes fl))"
          using cr m(3,4,6) wv av by (intro exI[of _ res]) simp
        from p q Some show ?thesis
          by (intro exI[of _ "fst w"] exI[of _ "fst a"]) simp
      qed
      moreover have "\<exists>b1 m1 b2 m2. puts out = [(paths_original paths, file_bytes fl, ct),
            (paths_webp paths, b1, m1), (paths_avif paths, b2, m2)]"
        using m(5) by (cases "webp res"; cases "avif res") (simp_all add: po_def w_def a_def variant_put_def)
      ultimately show ?thesis using m(1,2) all ng by blast
    qed
  qed
  have rel: "(\<forall>i ori. paths_webp (generatePaths env i ori ''gif'') = [] \<and>
                paths_avif (generatePaths env i ori ''gif'') = []) \<longrightarrow>
         (paths_webp paths \<noteq> [] \<longrightarrow>
            (\<exists>body mime. (paths_webp paths, body, mime) \<in> set (puts out))) \<and>
         (paths_avif paths \<noteq> [] \<longrightarrow>
            (\<exists>body mime. (paths_avif paths, body, mime) \<in> set (puts out))) \<and>
         (info_format info = ''gif'' \<longrightarrow> paths_webp paths = [] \<and> paths_avif paths = [])"
  proof
    assume g: "\<forall>i ori. paths_webp (generatePaths env i ori ''gif'') = [] \<and>
                paths_avif (generatePaths env i ori ''gif'') = []"
    show "(paths_webp paths \<noteq> [] \<longrightarrow>
            (\<exists>body mime. (paths_webp paths, body, mime) \<in> set (puts out))) \<and>
         (paths_avif paths \<noteq> [] \<longrightarrow>
            (\<exists>body mime. (paths_avif paths, body, mime) \<in> set (puts out))) \<and>
         (info_format info = ''gif'' \<longrightarrow> paths_webp paths = [] \<and> paths_avif paths = [])"
    proof (cases "info_format info = ''gif''")
      case True
      then show ?thesis using g by (simp add: paths_def)
    next
      case False
      with main[THEN conjunct2, THEN conjunct2, THEN conjunct2, THEN conjunct2, THEN conjunct2]
      obtain b1 m1 b2 m2 where "puts out = [(paths_original paths, file_bytes fl, ct),
            (paths_webp paths, b1, m1), (paths_avif paths, b2, m2)]"
        by blast
      then have "(paths_webp paths, b1, m1) \<in> set (puts out)"
        and "(paths_avif paths, b2, m2) \<in> set (puts out)"
        by simp_all
      then show ?thesis using False by blast
    qed
  qed
  note facts = main[THEN conjunct1] main[THEN conjunct2, THEN conjunct2, THEN conjunct1]
    main[THEN conjunct2, THEN conjunct2, THEN conjunct2, THEN conjunct1]
    main[THEN conjunct2, THEN conjunct2, THEN conjunct2, THEN conjunct2, THEN conjunct1]
  from main have pm: "img_paths md = paths" by blast
  show "\<exists>fl info.
      fileField = Some fl \<and> getImageInfo env (file_bytes fl) = Inr info \<and>
      img_format md = info_format info \<and>
      img_paths md =
        generatePaths env (generateImageId env) (info_orientation info) (info_format info) \<and>
      (\<forall>p \<in> set (puts (uploadSingleHandler env fileField tags expiryMinutes options)).
         storage_upload env (fst p) (fst (snd p)) (snd (snd p))) \<and>
      (info_format info = ''gif'' \<longrightarrow>
         puts (uploadSingleHandler env fileField tags expiryMinutes options) =
           [(paths_original (img_paths md), file_bytes fl, getContentType env (info_format info))] \<and>
         transforms (uploadSingleHandler env fileField tags expiryMinutes options) = [] \<and>
         sizes_webp (img_sizes md) = 0 \<and> sizes_avif (img_sizes md) = 0) \<and>
      (info_format info \<noteq> ''gif'' \<longrightarrow>
         (\<exists>wput aput.
            puts (uploadSingleHandler env fileField tags expiryMinutes options) =
              [(paths_original (img_paths md), file_bytes fl, getContentType env (info_format info)),
               wput, aput] \<and>
            (compression env = None \<longrightarrow>
               wput = (paths_webp (img_paths md), file_bytes fl,
                       getContentType env (info_format info)) \<and>
               sizes_webp (img_sizes md) = length (file_bytes fl) \<and>
               aput = (paths_avif (img_paths md), file_bytes fl,
                       getContentType env (info_format info)) \<and>
               sizes_avif (img_sizes md) = length (file_bytes fl)) \<and>
            (\<forall>cenv. compression env = Some cenv \<longrightarrow>
               (\<exists>res.
                  snd (compress cenv (file_bytes fl) (info_format info) options) = Inr res \<and>
                  transforms (uploadSingleHandler env fileField tags expiryMinutes options) =
                    fst (compress cenv (file_bytes fl) (info_format info) options) \<and>
                  (\<forall>v. webp res = Some v \<longrightarrow>
                     wput = (paths_webp (img_paths md), data v, ''image/webp'') \<and>
                     sizes_webp (img_sizes md) = size v) \<and>
                  (webp res = None \<longrightarrow>
                     wput = (paths_webp (img_paths md), file_bytes fl,
                             getContentType env (info_format info)) \<and>
                     sizes_webp (img_sizes md) = length (file_bytes fl)) \<and>
                  (\<forall>v. avif res = Some v \<longrightarrow>
                     aput = (paths_avif (img_paths md), data v, ''image/avif'') \<and>
                     sizes_avif (img_sizes md) = size v) \<and>
                  (avif res = None \<longrightarrow>
                     aput = (paths_avif (img_paths md), file_bytes fl,
                             getContentType env (info_format info)) \<and>
                     sizes_avif (img_sizes md) = length (file_bytes fl)))))) \<and>
      ((\<forall>i ori. paths_webp (generatePaths env i ori ''gif'') = [] \<and>
                paths_avif (generatePaths env i ori ''gif'') = []) \<longrightarrow>
         (paths_webp (img_paths md) \<noteq> [] \<longrightarrow>
            (\<exists>body mime. (paths_webp (img_paths md), body, mime)
               \<in> set (puts (uploadSingleHandler env fileField tags expiryMinutes options)))) \<and>
         (paths_avif (img_paths md) \<noteq> [] \<longrightarrow>
            (\<exists>body mime. (paths_avif (img_paths md), body, mime)
               \<in> set (puts (uploadSingleHandler env fileField tags expiryMinutes options)))) \<and>
         (info_format info = ''gif'' \<longrightarrow>
            paths_webp (img_paths md) = [] \<and> paths_avif (img_paths md) = []))"
    unfolding pm[unfolded paths_def]
    using f i facts[unfolded ct_def paths_def out_def] rel[unfolded paths_def out_def]
    by (intro exI[of _ fl] exI[of _ info] conjI) (assumption | rule refl)+
qed

theorem upload_records_generated_paths_witness:
  "(\<forall>i ori. paths_webp (generatePaths example_upload_env i ori ''gif'') = [] \<and>
             paths_avif (generatePaths example_upload_env i ori ''gif'') = []) \<and>
   (\<exists>md. saved (uploadSingleHandler example_upload_env (Some example_file) [] 0 no_options) = Some md \<and>
      img_paths md = \<lparr> paths_original = ''original/landscape/img1.jpeg'',
        paths_webp = ''landscape/webp/img1.webp'', paths_avif = ''landscape/avif/img1.avif'' \<rparr> \<and>
      sizes_webp (img_sizes md) = 2 \<and> sizes_avif (img_sizes md) = 5) \<and>
   puts (uploadSingleHandler example_upload_env (Some example_file) [] 0 no_options) =
     [(''original/landscape/img1.jpeg'', example_image, ''image/jpeg''),
      (''landscape/webp/img1.webp'', data example_webp, ''image/webp''),
      (''landscape/avif/img1.avif'', example_image, ''image/jpeg'')] \<and>
   (\<exists>md. saved (uploadSingleHandler gif_upload_env (Some gif_file) [] 0 no_options) = Some md \<and>
      paths_webp (img_paths md) = [] \<and> paths_avif (img_paths md) = [] \<and>
      sizes_webp (img_sizes md) = 0 \<and> sizes_avif (img_sizes md) = 0) \<and>
   puts (uploadSingleHandler gif_upload_env (Some gif_file) [] 0 no_options) =
     [(''original/landscape/img1.gif'', example_gif, ''image/gif'')]"
proof -
  let ?out = "uploadSingleHandler example_upload_env (Some example_file) [] 0 no_options"
  let ?gout = "uploadSingleHandler gif_upload_env (Some gif_file) [] 0 no_options"
  have hyp: "\<forall>i ori. paths_webp (generatePaths example_upload_env i ori ''gif'') = [] \<and>
             paths_avif (generatePaths example_upload_env i ori ''gif'') = []"
    by (simp add: example_upload_env_def)
  have "saved ?out \<noteq> None" by code_simp
  then obtain md where s: "saved ?out = Some md" by auto
  have cs: "compression example_upload_env = Some example_env"
    by (simp add: example_upload_env_def)
  have cr: "snd (compress example_env example_image ''jpeg'' no_options) =
      Inr \<lparr> original = example_image, isAnimated = False,
            webp = Some example_webp, avif = None \<rparr>"
    by code_simp
  from upload_records_generated_paths[rule_format, OF s]
  have J: "img_paths md = \<lparr> paths_original = ''original/landscape/img1.jpeg'',
        paths_webp = ''landscape/webp/img1.webp'', paths_avif = ''landscape/avif/img1.avif'' \<rparr> \<and>
      sizes_webp (img_sizes md) = 2 \<and> sizes_avif (img_sizes md) = 5 \<and>
      puts ?out =
       [(''original/landscape/img1.jpeg'', example_image, ''image/jpeg''),
        (''landscape/webp/img1.webp'', data example_webp, ''image/webp''),
        (''landscape/avif/img1.avif'', example_image, ''image/jpeg'')]"
  proof (elim exE conjE)
    fix fl info
    assume f: "Some example_file = Some fl"
    and i: "getImageInfo example_upload_env (file_bytes fl) = Inr info"
    and p: "img_paths md = generatePaths example_upload_env (generateImageId example_upload_env)
        (info_orientation info) (info_format info)"
    and w: "info_format info \<noteq> ''gif'' \<longrightarrow>
         (\<exists>wput aput.
            puts ?out =
              [(paths_original (img_paths md), file_bytes fl,
                getContentType example_upload_env (info_format info)), wput, aput] \<and>
            (compression example_upload_env = None \<longrightarrow>
               wput = (paths_webp (img_paths md), file_bytes fl,
                       getContentType example_upload_env (info_format info)) \<and>
               sizes_webp (img_sizes md) = length (file_bytes fl) \<and>
               aput = (paths_avif (img_paths md), file_bytes fl,
                       getContentType example_upload_env (info_format info)) \<and>
               sizes_avif (img_sizes md) = length (file_bytes fl)) \<and>
            (\<forall>cenv. compression example_upload_env = Some cenv \<longrightarrow>
               (\<exists>res.
                  snd (compress cenv (file_bytes fl) (info_format info) no_options) = Inr res \<and>
                  transforms ?out = fst (compress cenv (file_bytes fl) (info_format info) no_options) \<and>
                  (\<forall>v. webp res = Some v \<longrightarrow>
                     wput = (paths_webp (img_paths md), data v, ''image/webp'') \<and>
                     sizes_webp (img_sizes md) = size v) \<and>
                  (webp res = None \<longrightarrow>
                     wput = (paths_webp (img_paths md), file_bytes fl,
                             getContentType example_upload_env (info_format info)) \<and>
                     sizes_webp (img_sizes md) = length (file_bytes fl)) \<and>
                  (\<forall>v. avif res = Some v \<longrightarrow>
                     aput = (paths_avif (img_paths md), data v, ''image/avif'') \<and>
                     sizes_avif (img_sizes md) = size v) \<and>
                  (avif res = None \<longrightarrow>
                     aput = (paths_avif (img_paths md), file_bytes fl,
                             getContentType example_upload_env (info_format info)) \<and>
                     sizes_avif (img_sizes md) = length (file_bytes fl)))))"
  from f have fl: "fl = example_file" by simp
  from i have info: "info = \<lparr> info_format = ''jpeg'', info_width = 4000,
      info_height = 3000, info_orientation = ''landscape'' \<rparr>"
    by (simp add: example_upload_env_def)
  from p have paths: "img_paths md = \<lparr> paths_original = ''original/landscape/img1.jpeg'',
        paths_webp = ''landscape/webp/img1.webp'', paths_avif = ''landscape/avif/img1.avif'' \<rparr>"
    by (simp add: info example_upload_env_def)
  have ct: "getContentType example_upload_env (info_format info) = ''image/jpeg''"
    by (simp add: example_upload_env_def)
  have ng: "info_format info \<noteq> ''gif''" by (simp add: info)
  from mp[OF w ng] have "\<exists>wput aput.
      puts ?out = [(paths_original (img_paths md), file_bytes fl,
                getContentType example_upload_env (info_format info)), wput, aput] \<and>
      wput = (paths_webp (img_paths md), data example_webp, ''image/webp'') \<and>
      sizes_webp (img_sizes md) = size example_webp \<and>
      aput = (paths_avif (img_paths md), file_bytes fl,
              getContentType example_upload_env (info_format info)) \<and>
      sizes_avif (img_sizes md) = length (file_bytes fl)"
  proof (elim exE conjE)
    fix wput aput
    assume ps: "puts ?out = [(paths_original (img_paths md), file_bytes fl,
                getContentType example_upload_env (info_format info)), wput, aput]"
    assume c: "\<forall>cenv. compression example_upload_env = Some cenv \<longrightarrow>
               (\<exists>res.
                  snd (compress cenv (file_bytes fl) (info_format info) no_options) = Inr res \<and>
                  transforms ?out = fst (compress cenv (file_bytes fl) (info_format info) no_options) \<and>
                  (\<forall>v. webp res = Some v \<longrightarrow>
                     wput = (paths_webp (img_paths md), data v, ''image/webp'') \<and>
                     sizes_webp (img_sizes md) = size v) \<and>
                  (webp res = None \<longrightarrow>
                     wput = (paths_webp (img_paths md), file_bytes fl,
                             getContentType example_upload_env (info_format info)) \<and>
                     sizes_webp (img_sizes md) = length (file_bytes fl)) \<and>
                  (\<forall>v. avif res = Some v \<longrightarrow>
                     aput = (paths_avif (img_paths md), data v, ''image/avif'') \<and>
                     sizes_avif (img_sizes md) = size v) \<and>
                  (avif res = None \<longrightarrow>
                     aput = (paths_avif (img_paths md), file_bytes fl,
                             getContentType example_upload_env (info_format info)) \<and>
                     sizes_avif (img_sizes md) = length (file_bytes fl)))"
    from c[rule_format, OF cs]
    have "wput = (paths_webp (img_paths md), data example_webp, ''image/webp'') \<and>
      sizes_webp (img_sizes md) = size example_webp \<and>
      aput = (paths_avif (img_paths md), file_bytes fl,
              getContentType example_upload_env (info_format info)) \<and>
      sizes_avif (img_sizes md) = length (file_bytes fl)"
    proof (elim exE conjE)
      fix res
      assume r: "snd (compress example_env (file_bytes fl) (info_format info) no_options) = Inr res"
        and wv: "\<forall>v. webp res = Some v \<longrightarrow>
                     wput = (paths_webp (img_paths md), data v, ''image/webp'') \<and>
                     sizes_webp (img_sizes md) = size v"
        and an: "avif res = None \<longrightarrow>
                     aput = (paths_avif (img_paths md), file_bytes fl,
                             getContentType example_upload_env (info_format info)) \<and>
                     sizes_avif (img_sizes md) = length (file_bytes fl)"
      from r cr have "res = \<lparr> original = example_image, isAnimated = False,
            webp = Some example_webp, avif = None \<rparr>"
        by (simp add: fl info example_file_def)
      then have res: "webp res = Some example_webp" "avif res = None"
        by simp_all
      from wv[rule_format, OF res(1)] an[rule_format, OF res(2)]
      show ?thesis by simp
    qed
    with ps show ?thesis by (intro exI[of _ wput] exI[of _ aput]) simp
  qed
  then obtain wput aput where
    ps: "puts ?out = [(paths_original (img_paths md), file_bytes fl,
                getContentType example_upload_env (info_format info)), wput, aput]"
    and wp0: "wput = (paths_webp (img_paths md), data example_webp, ''image/webp'')"
    and ws0: "sizes_webp (img_sizes md) = size example_webp"
    and ap0: "aput = (paths_avif (img_paths md), file_bytes fl,
              getContentType example_upload_env (info_format info))"
    and as0: "sizes_avif (img_sizes md) = length (file_bytes fl)"
    by (elim exE conjE)
  have ws: "sizes_webp (img_sizes md) = 2" using ws0 by (simp add: example_webp_def)
  have as: "sizes_avif (img_sizes md) = 5"
    using as0 by (simp add: fl example_file_def example_image_def)
  from ps wp0 ap0 have 2: "puts ?out =
     [(''original/landscape/img1.jpeg'', example_image, ''image/jpeg''),
      (''landscape/webp/img1.webp'', data example_webp, ''image/webp''),
      (''landscape/avif/img1.avif'', example_image, ''image/jpeg'')]"
    by (simp add: paths ct fl example_file_def)
  from paths ws as 2 show ?thesis by blast
  qed
  from s J have 1: "\<exists>md. saved ?out = Some md \<and>
      img_paths md = \<lparr> paths_original = ''original/landscape/img1.jpeg'',
        paths_webp = ''landscape/webp/img1.webp'', paths_avif = ''landscape/avif/img1.avif'' \<rparr> \<and>
      sizes_webp (img_sizes md) = 2 \<and> sizes_avif (img_sizes md) = 5"
    by blast
  from J have 2: "puts ?out =
     [(''original/landscape/img1.jpeg'', example_image, ''image/jpeg''),
      (''landscape/webp/img1.webp'', data example_webp, ''image/webp''),
      (''landscape/avif/img1.avif'', example_image, ''image/jpeg'')]"
    by blast
  have "saved ?gout \<noteq> None" by code_simp
  then obtain gd where gs: "saved ?gout = Some gd" by auto
  from upload_records_generated_paths[rule_format, OF gs]
  have G: "paths_webp (img_paths gd) = [] \<and> paths_avif (img_paths gd) = [] \<and>
      sizes_webp (img_sizes gd) = 0 \<and> sizes_avif (img_sizes gd) = 0 \<and>
      puts ?gout = [(''original/landscape/img1.gif'', example_gif, ''image/gif'')]"
  proof (elim exE conjE)
    fix gfl ginfo
    assume gf: "Some gif_file = Some gfl"
    and gi: "getImageInfo gif_upload_env (file_bytes gfl) = Inr ginfo"
    and gp: "img_paths gd = generatePaths gif_upload_env (generateImageId gif_upload_env)
        (info_orientation ginfo) (info_format ginfo)"
    and gg: "info_format ginfo = ''gif'' \<longrightarrow>
         puts ?gout =
           [(paths_original (img_paths gd), file_bytes gfl,
             getContentType gif_upload_env (info_format ginfo))] \<and>
         transforms ?gout = [] \<and>
         sizes_webp (img_sizes gd) = 0 \<and> sizes_avif (img_sizes gd) = 0"
  from gi have ginfo: "ginfo = \<lparr> info_format = ''gif'', info_width = 40,
      info_height = 30, info_orientation = ''landscape'' \<rparr>"
    by (simp add: gif_upload_env_def)
  from gp have gpaths: "img_paths gd = \<lparr> paths_original = ''original/landscape/img1.gif'',
        paths_webp = [], paths_avif = [] \<rparr>"
    by (simp add: ginfo gif_upload_env_def example_upload_env_def)
  from gf have gfl: "gfl = gif_file" by simp
  have gct: "getContentType gif_upload_env (info_format ginfo) = ''image/gif''"
    by (simp add: gif_upload_env_def)
  have gb: "file_bytes gif_file = example_gif" by (simp add: gif_file_def)
  from gg have 4: "puts ?gout = [(''original/landscape/img1.gif'', example_gif, ''image/gif'')]"
    and gz: "sizes_webp (img_sizes gd) = 0 \<and> sizes_avif (img_sizes gd) = 0"
    unfolding gfl gct gpaths gb by (simp_all add: ginfo)
  from gpaths gz 4 show ?thesis by simp
  qed
  from gs G have 3: "\<exists>md. saved ?gout = Some md \<and>
      paths_webp (img_paths md) = [] \<and> paths_avif (img_paths md) = [] \<and>
      sizes_webp (img_sizes md) = 0 \<and> sizes_avif (img_sizes md) = 0"
    by blast
  from G have 4: "puts ?gout = [(''original/landscape/img1.gif'', example_gif, ''image/gif'')]"
    by blast
  from hyp 1 2 3 4 show ?thesis by blast
qed

section \<open>Deleting a tag\<close>

lemma send_chunks_unfold:
  "send_chunks env name ps i =
     (if i < length ps then
        (if \<not> queue_send env i \<lparr> msg_type = ''delete_tag_images'', msg_tagName = name,
                    msg_imagePaths = take 50 (drop i ps) \<rparr>
         then ([QueueSend \<lparr> msg_type = ''delete_tag_images'', msg_tagName = name,
                    msg_imagePaths = take 50 (drop i ps) \<rparr>], False)
         else (QueueSend \<lparr> msg_type = ''delete_tag_images'', msg_tagName = name,
                    msg_imagePaths = take 50 (drop i ps) \<rparr> # fst (send_chunks env name ps (i + 50)),
               snd (send_chunks env name ps (i + 50))))
      else ([], True))"
  by (subst send_chunks.simps) (simp add: Let_def)

lemma send_chunks_sends:
  "list_all is_queue_send (fst (send_chunks env name ps i))"
proof (induction env name ps i rule: send_chunks.induct)
  case (1 env name ps i)
  then show ?case by (subst send_chunks_unfold) (simp add: Let_def)
qed

lemma send_chunks_bounded:
  "\<forall>e \<in> set (fst (send_chunks env name ps i)). length (sent_paths e) \<le> 50"
proof (induction env name ps i rule: send_chunks.induct)
  case (1 env name ps i)
  then show ?case by (subst send_chunks_unfold) (simp add: Let_def)
qed

lemma send_chunks_complete:
  "snd (send_chunks env name ps i) \<Longrightarrow>
   concat (map sent_paths (fst (send_chunks env name ps i))) = drop i ps"
proof (induction env name ps i rule: send_chunks.induct)
  case (1 env name ps i)
  show ?case
  proof (cases "i < length ps")
    case False
    then show ?thesis by (subst send_chunks_unfold) simp
  next
    case True
    let ?m = "\<lparr> msg_type = ''delete_tag_images'', msg_tagName = name,
                    msg_imagePaths = take 50 (drop i ps) \<rparr>"
    have ok: "queue_send env i ?m"
      using "1.prems" True by (subst (asm) send_chunks_unfold) (auto split: if_splits)
    have rest: "snd (send_chunks env name ps (i + 50))"
      using "1.prems" True ok by (subst (asm) send_chunks_unfold) simp
    have "concat (map sent_paths (fst (send_chunks env name ps (i + 50)))) = drop (i + 50) ps"
      using "1.IH"[OF True refl _ rest] ok by simp
    moreover have "take 50 (drop i ps) @ drop (i + 50) ps = drop i ps"
      by (metis add.commute append_take_drop_id drop_drop)
    ultimately show ?thesis
      using True ok by (subst send_chunks_unfold) simp
  qed
qed

lemma every_fiftieth:
  "(\<forall>j. i + 50 * j < (n::nat) \<longrightarrow> P (i + 50 * j)) \<longleftrightarrow>
   (i < n \<longrightarrow> P i) \<and> (\<forall>j. (i + 50) + 50 * j < n \<longrightarrow> P ((i + 50) + 50 * j))"
proof -
  have "(\<forall>j. i + 50 * j < n \<longrightarrow> P (i + 50 * j)) \<longleftrightarrow>
      (i + 50 * 0 < n \<longrightarrow> P (i + 50 * 0)) \<and> (\<forall>j. i + 50 * Suc j < n \<longrightarrow> P (i + 50 * Suc j))"
    by (metis not0_implies_Suc)
  then show ?thesis by (simp add: add.assoc)
qed

lemma send_chunks_resolved:
  "snd (send_chunks env name ps i) \<longleftrightarrow>
   (\<forall>j. i + 50 * j < length ps \<longrightarrow>
      queue_send env (i + 50 * j) \<lparr> msg_type = ''delete_tag_images'', msg_tagName = name,
        msg_imagePaths = take 50 (drop (i + 50 * j) ps) \<rparr>)"
proof (induction env name ps i rule: send_chunks.induct)
  case (1 env name ps i)
  define ok where "ok = (\<lambda>k. queue_send env k \<lparr> msg_type = ''delete_tag_images'',
      msg_tagName = name, msg_imagePaths = take 50 (drop k ps) \<rparr>)"
  have goal: "snd (send_chunks env name ps i) \<longleftrightarrow> (\<forall>j. i + 50 * j < length ps \<longrightarrow> ok (i + 50 * j))"
  proof (cases "i < length ps")
    case False
    then show ?thesis by (subst send_chunks_unfold) simp
  next
    case True
    show ?thesis
    proof (cases "ok i")
      case False
      have "\<not> snd (send_chunks env name ps i)"
        using True False unfolding ok_def by (subst send_chunks_unfold) simp
      then show ?thesis using True False by (subst every_fiftieth) simp
    next
      case yes: True
      have step: "snd (send_chunks env name ps i) = snd (send_chunks env name ps (i + 50))"
        using True yes unfolding ok_def by (subst send_chunks_unfold) simp
      have ih: "snd (send_chunks env name ps (i + 50)) \<longleftrightarrow>
          (\<forall>j. (i + 50) + 50 * j < length ps \<longrightarrow> ok ((i + 50) + 50 * j))"
        using "1.IH"[OF True refl] yes unfolding ok_def by simp
      show ?thesis using step ih yes by (subst every_fiftieth) simp
    qed
  qed
  then show ?case unfolding ok_def .
qed

lemma chunk_count_step:
  "i < (l::nat) \<Longrightarrow> (l - i + 49) div 50 = Suc ((l - (i + 50) + 49) div 50)"
proof (cases "l - i < 50")
  case True
  assume "i < l"
  with True have "l - (i + 50) = 0" "1 \<le> l - i" by simp_all
  with True show ?thesis by simp
next
  case False
  then have "l - i + 49 = (l - (i + 50) + 49) + 50" by simp
  then show ?thesis by (simp only: div_add_self2)
qed

lemma map_every_fiftieth:
  "map (\<lambda>j. m (i + 50 * j)) [0..<Suc n] = m i # map (\<lambda>j. m ((i + 50) + 50 * j)) [0..<n]"
proof -
  have "[0..<Suc n] = 0 # map Suc [0..<n]"
    by (simp only: upt_conv_Cons[OF zero_less_Suc] map_Suc_upt)
  then show ?thesis by (simp add: comp_def add.assoc del: upt_Suc)
qed

lemma send_chunks_trace:
  "snd (send_chunks env name ps i) \<Longrightarrow>
   fst (send_chunks env name ps i) =
     map (\<lambda>j. QueueSend \<lparr> msg_type = ''delete_tag_images'', msg_tagName = name,
                 msg_imagePaths = take 50 (drop (i + 50 * j) ps) \<rparr>)
       [0..<(length ps - i + 49) div 50]"
proof (induction env name ps i rule: send_chunks.induct)
  case (1 env name ps i)
  define m where "m = (\<lambda>k. QueueSend \<lparr> msg_type = ''delete_tag_images'', msg_tagName = name,
        msg_imagePaths = take 50 (drop k ps) \<rparr>)"
  have goal: "fst (send_chunks env name ps i) =
      map (\<lambda>j. m (i + 50 * j)) [0..<(length ps - i + 49) div 50]"
  proof (cases "i < length ps")
    case False
    then show ?thesis by (subst send_chunks_unfold) simp
  next
    case True
    have ok: "queue_send env i \<lparr> msg_type = ''delete_tag_images'', msg_tagName = name,
        msg_imagePaths = take 50 (drop i ps) \<rparr>"
      using "1.prems" True by (subst (asm) send_chunks_unfold) (auto split: if_splits)
    have rest: "snd (send_chunks env name ps (i + 50))"
      using "1.prems" True ok by (subst (asm) send_chunks_unfold) simp
    have ih: "fst (send_chunks env name ps (i + 50)) =
        map (\<lambda>j. m ((i + 50) + 50 * j)) [0..<(length ps - (i + 50) + 49) div 50]"
      using "1.IH"[OF True refl _ rest] ok unfolding m_def by simp
    note n = chunk_count_step[OF True]
    have "fst (send_chunks env name ps i) = m i # fst (send_chunks env name ps (i + 50))"
      using True ok unfolding m_def by (subst send_chunks_unfold) simp
    also have "\<dots> = m i # map (\<lambda>j. m ((i + 50) + 50 * j))
        [0..<(length ps - (i + 50) + 49) div 50]"
      by (simp only: ih)
    also have "\<dots> = map (\<lambda>j. m (i + 50 * j)) [0..<Suc ((length ps - (i + 50) + 49) div 50)]"
      by (rule map_every_fiftieth[symmetric])
    also have "\<dots> = map (\<lambda>j. m (i + 50 * j)) [0..<(length ps - i + 49) div 50]"
      by (simp only: n)
    finally show ?thesis .
  qed
  then show ?case unfolding m_def .
qed

lemma send_chunks_nil: "send_chunks env name [] i = ([], True)"
  by (subst send_chunks_unfold) simp

text \<open>The run of the handler once the three synchronous calls have returned.\<close>

lemma deleteTagHandler_run:
  assumes "decodeURIComponent env param = Some name"
    and "getImagePathsByTag env name = Inr images"
    and "deleteTagWithImages env name = Inr n"
    and "invalidateAfterTagChange env"
  shows "deleteTagHandler env param =
     ([ReadImagePaths name, MetadataDelete name, CacheInvalidate] @
        fst (send_chunks env name (map to_queue_path images) 0),
      if snd (send_chunks env name (map to_queue_path images) 0)
      then DeleteSucceeded n else DeleteFailed)"
proof (cases "images = []")
  case True
  then show ?thesis using assms by (simp add: deleteTagHandler_def Let_def send_chunks_nil)
next
  case False
  then show ?thesis using assms by (simp add: deleteTagHandler_def Let_def)
qed

lemma deleteTagHandler_succeeded:
  assumes "snd (deleteTagHandler env param) = DeleteSucceeded n"
  shows "\<exists>name images.
     decodeURIComponent env param = Some name \<and>
     getImagePathsByTag env name = Inr images \<and>
     deleteTagWithImages env name = Inr n \<and>
     invalidateAfterTagChange env \<and>
     snd (send_chunks env name (map to_queue_path images) 0)"
proof (cases "decodeURIComponent env param")
  case None
  then show ?thesis using assms by (simp add: deleteTagHandler_def)
next
  case (Some name)
  note dec = Some
  show ?thesis
  proof (cases "getImagePathsByTag env name")
    case (Inl e)
    then show ?thesis using assms dec by (simp add: deleteTagHandler_def)
  next
    case (Inr images)
    note img = Inr
    show ?thesis
    proof (cases "deleteTagWithImages env name")
      case (Inl e)
      then show ?thesis using assms dec img by (simp add: deleteTagHandler_def Let_def)
    next
      case (Inr m)
      note del = Inr
      show ?thesis
      proof (cases "invalidateAfterTagChange env")
        case False
        then show ?thesis using assms dec img del by (simp add: deleteTagHandler_def Let_def)
      next
        case True
        from assms have "snd (send_chunks env name (map to_queue_path images) 0) \<and> m = n"
          unfolding deleteTagHandler_run[OF dec img del True] by (simp split: if_splits)
        with dec img del True show ?thesis by blast
      qed
    qed
  qed
qed

lemma deleteTagHandler_trace:
  "\<exists>name sends.
      (fst (deleteTagHandler env param) = [] \<or>
       fst (deleteTagHandler env param) = [ReadImagePaths name] \<or>
       fst (deleteTagHandler env param) = [ReadImagePaths name, MetadataDelete name] \<or>
       fst (deleteTagHandler env param) =
         [ReadImagePaths name, MetadataDelete name, CacheInvalidate] @ sends) \<and>
      list_all is_queue_send sends \<and>
      (\<forall>e \<in> set sends. length (sent_paths e) \<le> 50)"
proof (cases "decodeURIComponent env param")
  case None
  then have "fst (deleteTagHandler env param) = []" by (simp add: deleteTagHandler_def)
  then show ?thesis by (intro exI[of _ "[]"]) simp
next
  case (Some name)
  note dec = Some
  show ?thesis
  proof (cases "getImagePathsByTag env name")
    case (Inl e)
    with dec have "fst (deleteTagHandler env param) = [ReadImagePaths name]"
      by (simp add: deleteTagHandler_def)
    then show ?thesis by (intro exI[of _ name] exI[of _ "[]"]) simp
  next
    case (Inr images)
    note img = Inr
    show ?thesis
    proof (cases "deleteTagWithImages env name")
      case (Inl e)
      with dec img have "fst (deleteTagHandler env param) =
          [ReadImagePaths name, MetadataDelete name]"
        by (simp add: deleteTagHandler_def Let_def)
      then show ?thesis by (intro exI[of _ name] exI[of _ "[]"]) simp
    next
      case (Inr m)
      note del = Inr
      show ?thesis
      proof (cases "invalidateAfterTagChange env")
        case False
        with dec img del have "fst (deleteTagHandler env param) =
            [ReadImagePaths name, MetadataDelete name, CacheInvalidate] @ []"
          by (simp add: deleteTagHandler_def Let_def)
        then show ?thesis by (intro exI[of _ name] exI[of _ "[]"]) simp
      next
        case True
        have "fst (deleteTagHandler env param) =
            [ReadImagePaths name, MetadataDelete name, CacheInvalidate] @
            fst (send_chunks env name (map to_queue_path images) 0)"
          unfolding deleteTagHandler_run[OF dec img del True] by simp
        then show ?thesis
          using send_chunks_sends[of env name "map to_queue_path images" 0]
            send_chunks_bounded[of env name "map to_queue_path images" 0]
          by (intro exI[of _ name] exI[of _ "fst (send_chunks env name (map to_queue_path images) 0)"])
             simp
      qed
    qed
  qed
qed

text \<open>
  C2. The calls of \<open>deleteTagHandler\<close> are, in this order, the read of the image paths,
  the metadata deletion, the cache invalidation and the queue sends; the trace of a run
  is a prefix of that sequence, so a queue send is only ever made after the metadata
  deletion and the cache invalidation have returned. The handler answers success
  exactly when all three steps have completed: the metadata deletion returned the
  reported count, the cache invalidation returned, and every send - one message for each
  block of fifty image paths read - was accepted by the queue; the trace then holds
  exactly these sends, which carry the image paths read. A send the queue rejects gives
  failure. Every message carries at most 50 entries. When the metadata deletion throws,
  the handler answers failure and sends nothing.
\<close>

theorem deleteTagHandler_order:
  "(\<exists>name sends.
      (fst (deleteTagHandler env param) = [] \<or>
       fst (deleteTagHandler env param) = [ReadImagePaths name] \<or>
       fst (deleteTagHandler env param) = [ReadImagePaths name, MetadataDelete name] \<or>
       fst (deleteTagHandler env param) =
         [ReadImagePaths name, MetadataDelete name, CacheInvalidate] @ sends) \<and>
      list_all is_queue_send sends) \<and>
   (\<forall>n. snd (deleteTagHandler env param) = DeleteSucceeded n \<longrightarrow>
      (\<exists>name images sends.
         decodeURIComponent env param = Some name \<and>
         getImagePathsByTag env name = Inr images \<and>
         deleteTagWithImages env name = Inr n \<and>
         invalidateAfterTagChange env \<and>
         (\<forall>j. 50 * j < length images \<longrightarrow>
            queue_send env (50 * j)
              \<lparr> msg_type = ''delete_tag_images'', msg_tagName = name,
                msg_imagePaths = take 50 (drop (50 * j) (map to_queue_path images)) \<rparr>) \<and>
         fst (deleteTagHandler env param) =
           [ReadImagePaths name, MetadataDelete name, CacheInvalidate] @ sends \<and>
         sends = map (\<lambda>j. QueueSend
              \<lparr> msg_type = ''delete_tag_images'', msg_tagName = name,
                msg_imagePaths = take 50 (drop (50 * j) (map to_queue_path images)) \<rparr>)
            [0..<(length images + 49) div 50] \<and>
         list_all is_queue_send sends \<and>
         concat (map sent_paths sends) = map to_queue_path images)) \<and>
   (\<forall>name images n.
      decodeURIComponent env param = Some name \<and>
      getImagePathsByTag env name = Inr images \<and>
      deleteTagWithImages env name = Inr n \<and>
      invalidateAfterTagChange env \<and>
      (\<forall>j. 50 * j < length images \<longrightarrow>
         queue_send env (50 * j)
           \<lparr> msg_type = ''delete_tag_images'', msg_tagName = name,
             msg_imagePaths = take 50 (drop (50 * j) (map to_queue_path images)) \<rparr>) \<longrightarrow>
      snd (deleteTagHandler env param) = DeleteSucceeded n) \<and>
   (\<forall>name images j.
      decodeURIComponent env param = Some name \<and>
      getImagePathsByTag env name = Inr images \<and>
      50 * j < length images \<and>
      \<not> queue_send env (50 * j)
          \<lparr> msg_type = ''delete_tag_images'', msg_tagName = name,
            msg_imagePaths = take 50 (drop (50 * j) (map to_queue_path images)) \<rparr> \<longrightarrow>
      snd (deleteTagHandler env param) = DeleteFailed) \<and>
   (\<forall>e \<in> set (fst (deleteTagHandler env param)). length (sent_paths e) \<le> 50) \<and>
   (\<forall>name images err.
      decodeURIComponent env param = Some name \<and>
      getImagePathsByTag env name = Inr images \<and>
      deleteTagWithImages env name = Inl err \<longrightarrow>
      snd (deleteTagHandler env param) = DeleteFailed \<and>
      filter is_queue_send (fst (deleteTagHandler env param)) = [])"
proof -
  have resolved: "snd (send_chunks env name (map to_queue_path images) 0) \<longleftrightarrow>
      (\<forall>j. 50 * j < length images \<longrightarrow>
         queue_send env (50 * j)
           \<lparr> msg_type = ''delete_tag_images'', msg_tagName = name,
             msg_imagePaths = take 50 (drop (50 * j) (map to_queue_path images)) \<rparr>)"
    for name images
    using send_chunks_resolved[of env name "map to_queue_path images" 0] by simp
  have shape: "\<exists>name sends.
      (fst (deleteTagHandler env param) = [] \<or>
       fst (deleteTagHandler env param) = [ReadImagePaths name] \<or>
       fst (deleteTagHandler env param) = [ReadImagePaths name, MetadataDelete name] \<or>
       fst (deleteTagHandler env param) =
         [ReadImagePaths name, MetadataDelete name, CacheInvalidate] @ sends) \<and>
      list_all is_queue_send sends"
    using deleteTagHandler_trace[of env param] by blast
  have success: "\<forall>n. snd (deleteTagHandler env param) = DeleteSucceeded n \<longrightarrow>
      (\<exists>name images sends.
         decodeURIComponent env param = Some name \<and>
         getImagePathsByTag env name = Inr images \<and>
         deleteTagWithImages env name = Inr n \<and>
         invalidateAfterTagChange env \<and>
         (\<forall>j. 50 * j < length images \<longrightarrow>
            queue_send env (50 * j)
              \<lparr> msg_type = ''delete_tag_images'', msg_tagName = name,
                msg_imagePaths = take 50 (drop (50 * j) (map to_queue_path images)) \<rparr>) \<and>
         fst (deleteTagHandler env param) =
           [ReadImagePaths name, MetadataDelete name, CacheInvalidate] @ sends \<and>
         sends = map (\<lambda>j. QueueSend
              \<lparr> msg_type = ''delete_tag_images'', msg_tagName = name,
                msg_imagePaths = take 50 (drop (50 * j) (map to_queue_path images)) \<rparr>)
            [0..<(length images + 49) div 50] \<and>
         list_all is_queue_send sends \<and>
         concat (map sent_paths sends) = map to_queue_path images)"
  proof (intro allI impI)
    fix n assume s: "snd (deleteTagHandler env param) = DeleteSucceeded n"
    from deleteTagHandler_succeeded[OF s] obtain name images where
      dec: "decodeURIComponent env param = Some name"
      and img: "getImagePathsByTag env name = Inr images"
      and del: "deleteTagWithImages env name = Inr n"
      and inv: "invalidateAfterTagChange env"
      and ok: "snd (send_chunks env name (map to_queue_path images) 0)"
      by blast
    define sends where "sends = fst (send_chunks env name (map to_queue_path images) 0)"
    have 1: "\<forall>j. 50 * j < length images \<longrightarrow>
            queue_send env (50 * j)
              \<lparr> msg_type = ''delete_tag_images'', msg_tagName = name,
                msg_imagePaths = take 50 (drop (50 * j) (map to_queue_path images)) \<rparr>"
      using ok resolved by blast
    have 2: "fst (deleteTagHandler env param) =
           [ReadImagePaths name, MetadataDelete name, CacheInvalidate] @ sends"
      unfolding deleteTagHandler_run[OF dec img del inv] sends_def by simp
    have 3: "sends = map (\<lambda>j. QueueSend
              \<lparr> msg_type = ''delete_tag_images'', msg_tagName = name,
                msg_imagePaths = take 50 (drop (50 * j) (map to_queue_path images)) \<rparr>)
            [0..<(length images + 49) div 50]"
      using send_chunks_trace[OF ok] unfolding sends_def by simp
    have 4: "list_all is_queue_send sends"
      unfolding sends_def by (rule send_chunks_sends)
    have 5: "concat (map sent_paths sends) = map to_queue_path images"
      using send_chunks_complete[OF ok] unfolding sends_def by simp
    from dec img del inv 1 2 3 4 5
    show "\<exists>name images sends.
         decodeURIComponent env param = Some name \<and>
         getImagePathsByTag env name = Inr images \<and>
         deleteTagWithImages env name = Inr n \<and>
         invalidateAfterTagChange env \<and>
         (\<forall>j. 50 * j < length images \<longrightarrow>
            queue_send env (50 * j)
              \<lparr> msg_type = ''delete_tag_images'', msg_tagName = name,
                msg_imagePaths = take 50 (drop (50 * j) (map to_queue_path images)) \<rparr>) \<and>
         fst (deleteTagHandler env param) =
           [ReadImagePaths name, MetadataDelete name, CacheInvalidate] @ sends \<and>
         sends = map (\<lambda>j. QueueSend
              \<lparr> msg_type = ''delete_tag_images'', msg_tagName = name,
                msg_imagePaths = take 50 (drop (50 * j) (map to_queue_path images)) \<rparr>)
            [0..<(length images + 49) div 50] \<and>
         list_all is_queue_send sends \<and>
         concat (map sent_paths sends) = map to_queue_path images"
      by blast
  qed
  have accepted: "\<forall>name images n.
      decodeURIComponent env param = Some name \<and>
      getImagePathsByTag env name = Inr images \<and>
      deleteTagWithImages env name = Inr n \<and>
      invalidateAfterTagChange env \<and>
      (\<forall>j. 50 * j < length images \<longrightarrow>
         queue_send env (50 * j)
           \<lparr> msg_type = ''delete_tag_images'', msg_tagName = name,
             msg_imagePaths = take 50 (drop (50 * j) (map to_queue_path images)) \<rparr>) \<longrightarrow>
      snd (deleteTagHandler env param) = DeleteSucceeded n"
  proof (intro allI impI, elim conjE)
    fix name images n
    assume dec: "decodeURIComponent env param = Some name"
      and img: "getImagePathsByTag env name = Inr images"
      and del: "deleteTagWithImages env name = Inr n"
      and inv: "invalidateAfterTagChange env"
      and ok: "\<forall>j. 50 * j < length images \<longrightarrow>
         queue_send env (50 * j)
           \<lparr> msg_type = ''delete_tag_images'', msg_tagName = name,
             msg_imagePaths = take 50 (drop (50 * j) (map to_queue_path images)) \<rparr>"
    from ok have "snd (send_chunks env name (map to_queue_path images) 0)"
      using resolved by blast
    then show "snd (deleteTagHandler env param) = DeleteSucceeded n"
      unfolding deleteTagHandler_run[OF dec img del inv] by simp
  qed
  have rejected: "\<forall>name images j.
      decodeURIComponent env param = Some name \<and>
      getImagePathsByTag env name = Inr images \<and>
      50 * j < length images \<and>
      \<not> queue_send env (50 * j)
          \<lparr> msg_type = ''delete_tag_images'', msg_tagName = name,
            msg_imagePaths = take 50 (drop (50 * j) (map to_queue_path images)) \<rparr> \<longrightarrow>
      snd (deleteTagHandler env param) = DeleteFailed"
  proof (intro allI impI, elim conjE)
    fix name images j
    assume dec: "decodeURIComponent env param = Some name"
      and img: "getImagePathsByTag env name = Inr images"
      and j: "50 * j < length images"
      and no: "\<not> queue_send env (50 * j)
          \<lparr> msg_type = ''delete_tag_images'', msg_tagName = name,
            msg_imagePaths = take 50 (drop (50 * j) (map to_queue_path images)) \<rparr>"
    have bad: "\<not> snd (send_chunks env name (map to_queue_path images) 0)"
      using resolved j no by blast
    show "snd (deleteTagHandler env param) = DeleteFailed"
    proof (cases "snd (deleteTagHandler env param)")
      case DeleteFailed
      then show ?thesis .
    next
      case (DeleteSucceeded n)
      from deleteTagHandler_succeeded[OF DeleteSucceeded] dec img bad
      show ?thesis by auto
    qed
  qed
  have bounded: "\<forall>e \<in> set (fst (deleteTagHandler env param)). length (sent_paths e) \<le> 50"
  proof -
    from deleteTagHandler_trace[of env param] obtain name sends where
      t: "fst (deleteTagHandler env param) = [] \<or>
       fst (deleteTagHandler env param) = [ReadImagePaths name] \<or>
       fst (deleteTagHandler env param) = [ReadImagePaths name, MetadataDelete name] \<or>
       fst (deleteTagHandler env param) =
         [ReadImagePaths name, MetadataDelete name, CacheInvalidate] @ sends"
      and b: "\<forall>e \<in> set sends. length (sent_paths e) \<le> 50"
      by blast
    from t b show ?thesis by (elim disjE) auto
  qed
  have thrown: "\<forall>name images err.
      decodeURIComponent env param = Some name \<and>
      getImagePathsByTag env name = Inr images \<and>
      deleteTagWithImages env name = Inl err \<longrightarrow>
      snd (deleteTagHandler env param) = DeleteFailed \<and>
      filter is_queue_send (fst (deleteTagHandler env param)) = []"
    by (auto simp add: deleteTagHandler_def Let_def)
  from shape success accepted rejected bounded thrown show ?thesis by blast
qed

theorem deleteTagHandler_order_witness:
  "snd (deleteTagHandler example_tags_env ''cats'') = DeleteSucceeded 51 \<and>
   (\<exists>sends. fst (deleteTagHandler example_tags_env ''cats'') =
      [ReadImagePaths ''cats'', MetadataDelete ''cats'', CacheInvalidate] @ sends \<and>
      concat (map sent_paths sends) = map to_queue_path example_rows) \<and>
   map (\<lambda>e. length (sent_paths e)) (fst (deleteTagHandler example_tags_env ''cats'')) =
     [0, 0, 0, 50, 1] \<and>
   deleteTagWithImages failing_tags_env ''cats'' = Inl ''D1_ERROR'' \<and>
   snd (deleteTagHandler failing_tags_env ''cats'') = DeleteFailed \<and>
   filter is_queue_send (fst (deleteTagHandler failing_tags_env ''cats'')) = [] \<and>
   50 * 1 < length example_rows \<and>
   \<not> queue_send rejecting_tags_env (50 * 1)
       \<lparr> msg_type = ''delete_tag_images'', msg_tagName = ''cats'',
         msg_imagePaths = take 50 (drop (50 * 1) (map to_queue_path example_rows)) \<rparr> \<and>
   snd (deleteTagHandler rejecting_tags_env ''cats'') = DeleteFailed"
proof -
  note ok = deleteTagHandler_order[of example_tags_env "''cats''"]
  note ko = deleteTagHandler_order[of failing_tags_env "''cats''"]
  note rj = deleteTagHandler_order[of rejecting_tags_env "''cats''"]
  have dec: "decodeURIComponent example_tags_env ''cats'' = Some ''cats''"
    by (simp add: example_tags_env_def)
  have img: "getImagePathsByTag example_tags_env ''cats'' = Inr example_rows"
    by (simp add: example_tags_env_def)
  have del: "deleteTagWithImages example_tags_env ''cats'' = Inr 51"
    by (simp add: example_tags_env_def)
  have inv: "invalidateAfterTagChange example_tags_env"
    by (simp add: example_tags_env_def)
  have acc: "\<forall>j. 50 * j < length example_rows \<longrightarrow>
      queue_send example_tags_env (50 * j)
        \<lparr> msg_type = ''delete_tag_images'', msg_tagName = ''cats'',
          msg_imagePaths = take 50 (drop (50 * j) (map to_queue_path example_rows)) \<rparr>"
    by (simp add: example_tags_env_def)
  from ok[THEN conjunct2, THEN conjunct2, THEN conjunct1, rule_format,
      OF conjI[OF dec conjI[OF img conjI[OF del conjI[OF inv acc]]]]]
  have r: "snd (deleteTagHandler example_tags_env ''cats'') = DeleteSucceeded 51" .
  from ok[THEN conjunct2, THEN conjunct1, rule_format, OF r] dec img
  have 1: "\<exists>sends. fst (deleteTagHandler example_tags_env ''cats'') =
      [ReadImagePaths ''cats'', MetadataDelete ''cats'', CacheInvalidate] @ sends \<and>
      concat (map sent_paths sends) = map to_queue_path example_rows"
    by auto
  have 2: "map (\<lambda>e. length (sent_paths e)) (fst (deleteTagHandler example_tags_env ''cats'')) =
     [0, 0, 0, 50, 1]"
    by code_simp
  have fdec: "decodeURIComponent failing_tags_env ''cats'' = Some ''cats''"
    by (simp add: failing_tags_env_def example_tags_env_def)
  have fimg: "getImagePathsByTag failing_tags_env ''cats'' = Inr example_rows"
    by (simp add: failing_tags_env_def example_tags_env_def)
  have fdel: "deleteTagWithImages failing_tags_env ''cats'' = Inl ''D1_ERROR''"
    by (simp add: failing_tags_env_def)
  from ko[THEN conjunct2, THEN conjunct2, THEN conjunct2, THEN conjunct2, THEN conjunct2,
      rule_format, OF conjI[OF fdec conjI[OF fimg fdel]]]
  have 3: "snd (deleteTagHandler failing_tags_env ''cats'') = DeleteFailed \<and>
      filter is_queue_send (fst (deleteTagHandler failing_tags_env ''cats'')) = []" .
  have rdec: "decodeURIComponent rejecting_tags_env ''cats'' = Some ''cats''"
    by (simp add: rejecting_tags_env_def example_tags_env_def)
  have rimg: "getImagePathsByTag rejecting_tags_env ''cats'' = Inr example_rows"
    by (simp add: rejecting_tags_env_def example_tags_env_def)
  have len: "50 * 1 < length example_rows"
    by (simp add: example_rows_def)
  have rej: "\<not> queue_send rejecting_tags_env (50 * 1)
       \<lparr> msg_type = ''delete_tag_images'', msg_tagName = ''cats'',
         msg_imagePaths = take 50 (drop (50 * 1) (map to_queue_path example_rows)) \<rparr>"
    by (simp add: rejecting_tags_env_def)
  from rj[THEN conjunct2, THEN conjunct2, THEN conjunct2, THEN conjunct1, rule_format,
      OF conjI[OF rdec conjI[OF rimg conjI[OF len rej]]]]
  have 4: "snd (deleteTagHandler rejecting_tags_env ''cats'') = DeleteFailed" .
  from r 1 2 fdel 3 len rej 4 show ?thesis by blast
qed

section \<open>The random query\<close>

lemma random_first_mem: "random_first rnd rows = Some r \<Longrightarrow> r \<in> set rows"
  by (auto simp add: random_first_def split: if_splits)

lemma group_having_mem:
  "r \<in> set (group_having n rows) \<Longrightarrow>
   \<exists>x \<in> set rows. fst x = r \<and>
     length (remdups (map snd (filter (\<lambda>y. row_id (fst y) = row_id r) rows))) = n"
proof -
  assume "r \<in> set (group_having n rows)"
  then obtain g where g: "g \<in> set (map (\<lambda>x. row_id (fst x)) rows)"
    and n: "length (remdups (map snd (filter (\<lambda>y. row_id (fst y) = g) rows))) = n"
    and hd: "r \<in> set (case filter (\<lambda>y. row_id (fst y) = g) rows of x # _ \<Rightarrow> [fst x] | [] \<Rightarrow> [])"
    by (auto simp add: group_having_def Let_def split: if_splits)
  from hd obtain x xs where f: "filter (\<lambda>y. row_id (fst y) = g) rows = x # xs" and r: "r = fst x"
    by (cases "filter (\<lambda>y. row_id (fst y) = g) rows") auto
  have "x \<in> set (filter (\<lambda>y. row_id (fst y) = g) rows)" using f by simp
  then have xin: "x \<in> set rows" and xg: "row_id (fst x) = g" by auto
  with r n show ?thesis by auto
qed

text \<open>Every candidate is a row of the FROM clause that passes the WHERE clause.\<close>

lemma random_candidates_where:
  "r \<in> set (random_candidates db filters) \<Longrightarrow> \<exists>t. where_ok db filters (r, t)"
proof (cases "has_items (f_tags filters)")
  case True
  assume "r \<in> set (random_candidates db filters)"
  with True have "r \<in> set (group_having (length (items (f_tags filters)))
      (filter (where_ok db filters) (map (\<lambda>(i, name). (i, Some name)) (images_join_tags db))))"
    by (simp add: random_candidates_def Let_def)
  from group_having_mem[OF this] obtain x where
    x: "x \<in> set (filter (where_ok db filters)
      (map (\<lambda>(i, name). (i, Some name)) (images_join_tags db)))" and fx: "fst x = r"
    by blast
  from x have "where_ok db filters x" by simp
  with fx show ?thesis by (cases x) auto
next
  case False
  assume "r \<in> set (random_candidates db filters)"
  with False show ?thesis
    by (auto simp add: random_candidates_def Let_def split: if_splits)
qed

lemma random_candidates_orientation:
  "r \<in> set (random_candidates db filters) \<Longrightarrow> f_orientation filters = Some ori \<Longrightarrow>
   ori \<noteq> [] \<Longrightarrow> row_orientation r = ori"
  by (drule random_candidates_where) (auto simp add: where_ok_def)

text \<open>The image returned is a candidate row with its tags attached.\<close>

lemma getRandomImage_candidate:
  "getRandomImage db rnd filters = Some m \<Longrightarrow>
   \<exists>r tags. r \<in> set (random_candidates db filters) \<and> m = rowToMetadata r tags"
proof -
  assume a: "getRandomImage db rnd filters = Some m"
  then obtain r where r: "random_first rnd (random_candidates db filters) = Some r"
    by (cases "random_first rnd (random_candidates db filters)")
      (auto simp add: getRandomImage_def)
  have "snd (enrichWithTags db [r]) =
      [rowToMetadata r (case snd (enrich_loop db [row_id r] 0 Map.empty) (row_id r) of
          Some names \<Rightarrow> names | None \<Rightarrow> [])]"
    by (simp add: enrichWithTags_def Let_def)
  with a r have "m = rowToMetadata r (case snd (enrich_loop db [row_id r] 0 Map.empty) (row_id r) of
          Some names \<Rightarrow> names | None \<Rightarrow> [])"
    by (simp add: getRandomImage_def)
  with random_first_mem[OF r] show ?thesis by blast
qed

lemma getRandomImage_orientation:
  "getRandomImage db rnd filters = Some m \<Longrightarrow> f_orientation filters = Some ori \<Longrightarrow>
   ori \<noteq> [] \<Longrightarrow> img_orientation m = ori"
  by (drule getRandomImage_candidate)
    (auto simp add: rowToMetadata_def dest: random_candidates_orientation)

section \<open>The orientation of a random request\<close>

text \<open>
  C10. When the orientation parameter is neither \<open>landscape\<close> nor \<open>portrait\<close> (absent
  included), the handler filters by \<open>portrait\<close> for a mobile User-Agent and by
  \<open>landscape\<close> otherwise: every candidate row of the query has that orientation, so
  does the image the query returns, and a redirect is only answered for such an image.
\<close>

theorem randomHandler_default_orientation:
  "q_orientation req \<noteq> Some ''landscape'' \<and> q_orientation req \<noteq> Some ''portrait'' \<longrightarrow>
   (let ori = (if isMobileDevice env (h_user_agent req) then ''portrait'' else ''landscape'')
    in f_orientation (request_filters env req) = Some ori \<and>
       (\<forall>r \<in> set (random_candidates (r_db env) (request_filters env req)).
          row_orientation r = ori) \<and>
       (\<forall>m. getRandomImage (r_db env) (r_rnd env) (request_filters env req) = Some m \<longrightarrow>
          img_orientation m = ori) \<and>
       (\<forall>u. randomHandler env req = Redirect u \<longrightarrow>
          (\<exists>m. getRandomImage (r_db env) (r_rnd env) (request_filters env req) = Some m \<and>
               img_orientation m = ori)))"
proof
  assume h: "q_orientation req \<noteq> Some ''landscape'' \<and> q_orientation req \<noteq> Some ''portrait''"
  define ori where "ori = (if isMobileDevice env (h_user_agent req) then ''portrait'' else ''landscape'')"
  have o: "request_orientation env req = ori"
    using h by (simp add: request_orientation_def ori_def)
  have ne: "ori \<noteq> []" by (simp add: ori_def)
  have f: "f_orientation (request_filters env req) = Some ori"
    by (simp add: request_filters_def o)
  have c: "\<forall>r \<in> set (random_candidates (r_db env) (request_filters env req)).
      row_orientation r = ori"
    using random_candidates_orientation[OF _ f ne] by blast
  have g: "\<forall>m. getRandomImage (r_db env) (r_rnd env) (request_filters env req) = Some m \<longrightarrow>
      img_orientation m = ori"
    using getRandomImage_orientation[OF _ f ne] by blast
  have r: "\<forall>u. randomHandler env req = Redirect u \<longrightarrow>
      (\<exists>m. getRandomImage (r_db env) (r_rnd env) (request_filters env req) = Some m \<and>
           img_orientation m = ori)"
  proof (intro allI impI)
    fix u assume "randomHandler env req = Redirect u"
    then obtain m where "getRandomImage (r_db env) (r_rnd env) (request_filters env req) = Some m"
      by (cases "getRandomImage (r_db env) (r_rnd env) (request_filters env req)")
        (auto simp add: randomHandler_def)
    with g show "\<exists>m. getRandomImage (r_db env) (r_rnd env) (request_filters env req) = Some m \<and>
           img_orientation m = ori" by blast
  qed
  from f c g r show "let ori = (if isMobileDevice env (h_user_agent req) then ''portrait'' else ''landscape'')
    in f_orientation (request_filters env req) = Some ori \<and>
       (\<forall>r \<in> set (random_candidates (r_db env) (request_filters env req)).
          row_orientation r = ori) \<and>
       (\<forall>m. getRandomImage (r_db env) (r_rnd env) (request_filters env req) = Some m \<longrightarrow>
          img_orientation m = ori) \<and>
       (\<forall>u. randomHandler env req = Redirect u \<longrightarrow>
          (\<exists>m. getRandomImage (r_db env) (r_rnd env) (request_filters env req) = Some m \<and>
               img_orientation m = ori))"
    unfolding Let_def ori_def by blast
qed

theorem randomHandler_default_orientation_witness:
  "q_orientation example_request \<noteq> Some ''landscape'' \<and>
   q_orientation example_request \<noteq> Some ''portrait'' \<and>
   \<not> isMobileDevice example_random_env (h_user_agent example_request) \<and>
   f_orientation (request_filters example_random_env example_request) = Some ''landscape'' \<and>
   randomHandler example_random_env example_request =
     Redirect ''https://img.example/landscape/avif/tabby.avif'' \<and>
   (\<exists>m. getRandomImage (r_db example_random_env) (r_rnd example_random_env)
          (request_filters example_random_env example_request) = Some m \<and>
        img_orientation m = ''landscape'')"
proof -
  have h: "q_orientation example_request \<noteq> Some ''landscape'' \<and>
      q_orientation example_request \<noteq> Some ''portrait''"
    by (simp add: example_request_def)
  have nm: "\<not> isMobileDevice example_random_env (h_user_agent example_request)"
    by code_simp
  note t = randomHandler_default_orientation[of example_request example_random_env,
      rule_format, OF h, unfolded Let_def]
  have red: "randomHandler example_random_env example_request =
      Redirect ''https://img.example/landscape/avif/tabby.avif''"
    by code_simp
  from t nm have f: "f_orientation (request_filters example_random_env example_request) =
      Some ''landscape''" by simp
  from t nm red have m: "\<exists>m. getRandomImage (r_db example_random_env) (r_rnd example_random_env)
          (request_filters example_random_env example_request) = Some m \<and>
        img_orientation m = ''landscape''" by simp
  from h nm f red m show ?thesis by blast
qed

section \<open>What the random query selects\<close>

lemma images_join_tags_mem:
  "(i, name) \<in> set (images_join_tags db) \<longleftrightarrow>
   i \<in> set (db_images db) \<and>
   (\<exists>it \<in> set (db_image_tags db). \<exists>tg \<in> set (db_tags db).
      row_id i = fst it \<and> snd it = fst tg \<and> snd tg = name)"
  by (auto simp add: images_join_tags_def split: if_splits)

lemma excluded_image_ids_mem:
  "i \<in> set (excluded_image_ids db exclude) \<longleftrightarrow> (\<exists>t \<in> set exclude. has_tag db i t)"
  by (auto simp add: excluded_image_ids_def has_tag_def split: if_splits)

lemma random_candidates_image:
  "r \<in> set (random_candidates db filters) \<Longrightarrow> r \<in> set (db_images db)"
proof (cases "has_items (f_tags filters)")
  case True
  assume "r \<in> set (random_candidates db filters)"
  with True have "r \<in> set (group_having (length (items (f_tags filters)))
      (filter (where_ok db filters) (map (\<lambda>(i, name). (i, Some name)) (images_join_tags db))))"
    by (simp add: random_candidates_def Let_def)
  from group_having_mem[OF this] obtain x where
    x: "x \<in> set (filter (where_ok db filters)
      (map (\<lambda>(i, name). (i, Some name)) (images_join_tags db)))" and fx: "fst x = r"
    by blast
  from x have "x \<in> set (map (\<lambda>(i, name). (i, Some name)) (images_join_tags db))" by simp
  then obtain i name where "(i, name) \<in> set (images_join_tags db)" and "x = (i, Some name)"
    by auto
  with fx show ?thesis by (auto simp add: images_join_tags_mem)
next
  case False
  assume "r \<in> set (random_candidates db filters)"
  with False show ?thesis
    by (auto simp add: random_candidates_def Let_def images_join_tags_mem split: if_splits)
qed

lemma random_candidates_excluded:
  "r \<in> set (random_candidates db filters) \<Longrightarrow> t \<in> set (items (f_exclude filters)) \<Longrightarrow>
   \<not> has_tag db (row_id r) t"
proof -
  assume r: "r \<in> set (random_candidates db filters)" and t: "t \<in> set (items (f_exclude filters))"
  from t have "has_items (f_exclude filters)"
    by (cases "f_exclude filters") (auto simp add: has_items_def items_def)
  moreover from random_candidates_where[OF r] obtain n where "where_ok db filters (r, n)" by blast
  ultimately have "row_id r \<notin> set (excluded_image_ids db (items (f_exclude filters)))"
    by (simp add: where_ok_def)
  with t show ?thesis by (auto simp add: excluded_image_ids_mem)
qed

lemma random_candidates_tagged:
  assumes r: "r \<in> set (random_candidates db filters)"
    and t: "t \<in> set (items (f_tags filters))"
  shows "has_tag db (row_id r) t"
proof -
  define rows where "rows = filter (where_ok db filters)
      (map (\<lambda>(i, name). (i, Some name)) (images_join_tags db))"
  define grp where "grp = filter (\<lambda>y. row_id (fst y) = row_id r) rows"
  from t have ht: "has_items (f_tags filters)"
    by (cases "f_tags filters") (auto simp add: has_items_def items_def)
  with r have "r \<in> set (group_having (length (items (f_tags filters))) rows)"
    by (simp add: random_candidates_def Let_def rows_def)
  from group_having_mem[OF this]
  have n: "length (remdups (map snd grp)) = length (items (f_tags filters))"
    by (auto simp add: grp_def)
  have sub: "set (map snd grp) \<subseteq> Some ` set (items (f_tags filters))"
  proof
    fix s assume "s \<in> set (map snd grp)"
    then obtain y where y: "y \<in> set rows" and s: "s = snd y" by (auto simp add: grp_def)
    from y have "where_ok db filters y" by (simp add: rows_def)
    with ht s show "s \<in> Some ` set (items (f_tags filters))"
      by (cases y) (auto simp add: where_ok_def split: option.splits)
  qed
  have "card (Some ` set (items (f_tags filters))) \<le> length (items (f_tags filters))"
    by (metis card_image_le card_length le_trans List.finite_set)
  also have "\<dots> = card (set (map snd grp))"
    using n by (simp add: length_remdups_card_conv)
  finally have "set (map snd grp) = Some ` set (items (f_tags filters))"
    using sub by (intro card_seteq) auto
  with t have "Some t \<in> set (map snd grp)" by auto
  then obtain y where y: "y \<in> set rows" and id: "row_id (fst y) = row_id r" and s: "snd y = Some t"
    by (auto simp add: grp_def)
  from y have "y \<in> set (map (\<lambda>(i, name). (i, Some name)) (images_join_tags db))"
    by (simp add: rows_def)
  with s have "(fst y, t) \<in> set (images_join_tags db)" by auto
  then obtain it tg where "it \<in> set (db_image_tags db)" "tg \<in> set (db_tags db)"
    "row_id (fst y) = fst it" "snd it = fst tg" "snd tg = t"
    unfolding images_join_tags_mem by blast
  with id show ?thesis unfolding has_tag_def by force
qed

text \<open>
  The image \<open>getRandomImage\<close> returns is a stored image that is associated with every
  requested tag and with no excluded tag, and has the requested orientation.
\<close>

lemma getRandomImage_sound:
  assumes "getRandomImage db rnd filters = Some m"
  shows "(\<exists>r \<in> set (db_images db). img_id m = row_id r) \<and>
         (\<forall>t \<in> set (items (f_tags filters)). has_tag db (img_id m) t) \<and>
         (\<forall>t \<in> set (items (f_exclude filters)). \<not> has_tag db (img_id m) t) \<and>
         (\<forall>ori. f_orientation filters = Some ori \<and> ori \<noteq> [] \<longrightarrow> img_orientation m = ori)"
proof -
  from getRandomImage_candidate[OF assms] obtain r tags where
    r: "r \<in> set (random_candidates db filters)" and m: "m = rowToMetadata r tags" by blast
  have i: "img_id m = row_id r" and o: "img_orientation m = row_orientation r"
    by (simp_all add: m rowToMetadata_def)
  show ?thesis
    using random_candidates_image[OF r] random_candidates_tagged[OF r]
      random_candidates_excluded[OF r] random_candidates_orientation[OF r] i o
    by auto
qed

text \<open>
  C1 on a catalogue of one untagged landscape image. With only \<open>exclude\<close> given the
  image has no excluded tag, yet the query joins \<open>image_tags\<close> and has no row for it:
  no random order returns it. Without the exclude filter the same image is returned.
\<close>

theorem getRandomImage_exclude_drops_untagged:
  "db_images untagged_db = [example_row ''plain'' ''landscape''] \<and>
   \<not> has_tag untagged_db ''plain'' ''nsfw'' \<and>
   random_candidates untagged_db
     \<lparr> f_tags = None, f_exclude = Some [''nsfw''], f_orientation = Some ''landscape'' \<rparr> = [] \<and>
   (\<forall>rnd. getRandomImage untagged_db rnd
      \<lparr> f_tags = None, f_exclude = Some [''nsfw''], f_orientation = Some ''landscape'' \<rparr> = None) \<and>
   (\<forall>rnd. getRandomImage untagged_db rnd
      \<lparr> f_tags = None, f_exclude = None, f_orientation = Some ''landscape'' \<rparr> =
      Some (rowToMetadata (example_row ''plain'' ''landscape'') []))"
proof -
  have 1: "db_images untagged_db = [example_row ''plain'' ''landscape'']"
    by (simp add: untagged_db_def)
  have 2: "\<not> has_tag untagged_db ''plain'' ''nsfw''"
    by (simp add: has_tag_def untagged_db_def)
  have 3: "random_candidates untagged_db
     \<lparr> f_tags = None, f_exclude = Some [''nsfw''], f_orientation = Some ''landscape'' \<rparr> = []"
    by code_simp
  have 4: "\<forall>rnd. getRandomImage untagged_db rnd
      \<lparr> f_tags = None, f_exclude = Some [''nsfw''], f_orientation = Some ''landscape'' \<rparr> = None"
    by (simp add: getRandomImage_def 3 random_first_def)
  have c: "random_candidates untagged_db
     \<lparr> f_tags = None, f_exclude = None, f_orientation = Some ''landscape'' \<rparr> =
     [example_row ''plain'' ''landscape'']"
    by code_simp
  have e: "snd (enrichWithTags untagged_db [example_row ''plain'' ''landscape'']) =
      [rowToMetadata (example_row ''plain'' ''landscape'') []]"
    by code_simp
  have 5: "\<forall>rnd. getRandomImage untagged_db rnd
      \<lparr> f_tags = None, f_exclude = None, f_orientation = Some ''landscape'' \<rparr> =
      Some (rowToMetadata (example_row ''plain'' ''landscape'') [])"
    by (simp add: getRandomImage_def c e random_first_def)
  from 1 2 3 4 5 show ?thesis by blast
qed

section \<open>Bound parameters per statement\<close>

lemma enrich_loop_unfold:
  "enrich_loop db imageIds i tagMap =
     (if i < length imageIds then
        (\<lparr> sql_text = SelectTagsOfImagesIn (length (take 90 (drop i imageIds))),
           bound = take 90 (drop i imageIds) \<rparr> #
           fst (enrich_loop db imageIds (i + 90)
                  (foldl push_tag tagMap (select_tags_of_images db (take 90 (drop i imageIds))))),
         snd (enrich_loop db imageIds (i + 90)
                  (foldl push_tag tagMap (select_tags_of_images db (take 90 (drop i imageIds))))))
      else ([], tagMap))"
  by (subst enrich_loop.simps) (simp add: Let_def)

text \<open>Every statement of \<open>enrichWithTags\<close> binds at most 90 image ids.\<close>

lemma enrich_loop_chunks:
  "\<forall>st \<in> set (fst (enrich_loop db imageIds i tagMap)). length (bound st) \<le> 90"
proof (induction db imageIds i tagMap rule: enrich_loop.induct)
  case (1 db imageIds i tagMap)
  then show ?case by (subst enrich_loop_unfold) (simp add: Let_def)
qed

lemma enrichWithTags_chunks:
  "\<forall>st \<in> set (fst (enrichWithTags db rows)). length (bound st) \<le> 90"
  using enrich_loop_chunks[of db "map row_id rows" 0 Map.empty]
  by (simp add: enrichWithTags_def Let_def)

text \<open>
  \<open>batchUpdateTags\<close> does not chunk: its one DELETE binds every image id and every
  removed tag, and each association INSERT binds the tag and every image id.
\<close>

lemma batchUpdateTags_removal_binds_all:
  "imageIds \<noteq> [] \<Longrightarrow> removeTags \<noteq> [] \<Longrightarrow>
   \<lparr> sql_text = DeleteImageTagsIn (length imageIds) (length removeTags),
     bound = imageIds @ removeTags \<rparr> \<in> set (fst (batchUpdateTags imageIds addTags removeTags))"
  by (simp add: batchUpdateTags_def Let_def)

lemma batchUpdateTags_insert_binds_all:
  "imageIds \<noteq> [] \<Longrightarrow> tag \<in> set addTags \<Longrightarrow>
   \<lparr> sql_text = InsertImageTagsFor (length imageIds), bound = tag # imageIds \<rparr>
     \<in> set (fst (batchUpdateTags imageIds addTags removeTags))"
  by (auto simp add: batchUpdateTags_def Let_def)

text \<open>
  C4 at 200 image ids and one removed tag: \<open>batchUpdateTags\<close> sends a single statement
  that binds 201 parameters, 200 of them in one \<open>IN (...)\<close> list, where the chunk loop
  of \<open>enrichWithTags\<close> reads the tags of the same ids in statements of 90, 90 and 20.
\<close>

theorem batchUpdateTags_unchunked:
  "length many_ids = 200 \<and>
   map (\<lambda>st. (sql_text st, length (bound st))) (fst (batchUpdateTags many_ids [] [''old''])) =
     [(DeleteImageTagsIn 200 1, 201)] \<and>
   map (\<lambda>st. (sql_text st, length (bound st))) (fst (batchUpdateTags many_ids [''new''] [])) =
     [(InsertTagIfMissing, 1), (InsertImageTagsFor 200, 201)] \<and>
   map (\<lambda>st. (sql_text st, length (bound st))) (fst (enrich_loop example_db many_ids 0 Map.empty)) =
     [(SelectTagsOfImagesIn 90, 90), (SelectTagsOfImagesIn 90, 90), (SelectTagsOfImagesIn 20, 20)]"
proof -
  have l: "length many_ids = 200" by (simp add: many_ids_def)
  have ne: "many_ids \<noteq> []" using l by auto
  have 1: "map (\<lambda>st. (sql_text st, length (bound st))) (fst (batchUpdateTags many_ids [] [''old''])) =
     [(DeleteImageTagsIn 200 1, 201)]"
    using ne l by (simp add: batchUpdateTags_def Let_def)
  have 2: "map (\<lambda>st. (sql_text st, length (bound st))) (fst (batchUpdateTags many_ids [''new''] [])) =
     [(InsertTagIfMissing, 1), (InsertImageTagsFor 200, 201)]"
    using ne l by (simp add: batchUpdateTags_def Let_def)
  have 3: "map (\<lambda>st. (sql_text st, length (bound st))) (fst (enrich_loop example_db many_ids 0 Map.empty)) =
     [(SelectTagsOfImagesIn 90, 90), (SelectTagsOfImagesIn 90, 90), (SelectTagsOfImagesIn 20, 20)]"
    using l
    by (subst enrich_loop_unfold, simp, subst enrich_loop_unfold, simp,
        subst enrich_loop_unfold, simp, subst enrich_loop_unfold, simp)
  from l 1 2 3 show ?thesis by blast
qed

section \<open>Resolved URLs\<close>

lemma buildImageUrls_gif:
  "toLowerCase (img_format img) = ''gif'' \<Longrightarrow>
   buildImageUrls api fp baseUrl img options preferStored =
     (case buildPublicUrl api baseUrl (paths_original (img_paths img)) of
        None \<Rightarrow> None
      | Some originalUrl \<Rightarrow> Some \<lparr> url_original = originalUrl, url_webp = [], url_avif = [] \<rparr>)"
  by (simp add: buildImageUrls_def Let_def split: option.splits)

text \<open>A successful resolution of a non-GIF image, taken apart.\<close>

lemma buildImageUrls_parts:
  assumes "buildImageUrls api fp baseUrl img options preferStored = Some urls"
    and "toLowerCase (img_format img) \<noteq> ''gif''"
  shows "\<exists>webpStored avifStored q maxW maxH.
     buildPublicUrl api baseUrl (paths_original (img_paths img)) = Some (url_original urls) \<and>
     stored_url api baseUrl preferStored ''webp'' (toLowerCase (img_format img))
       (paths_original (img_paths img)) (paths_webp (img_paths img)) = Some webpStored \<and>
     stored_url api baseUrl preferStored ''avif'' (toLowerCase (img_format img))
       (paths_original (img_paths img)) (paths_avif (img_paths img)) = Some avifStored \<and>
     variant_url api fp ''webp'' (generateWebp (merge_options DEFAULT_TRANSFORM_OPTIONS options))
       webpStored (toLowerCase (img_format img)) (url_original urls) img q maxW maxH =
       Some (url_webp urls) \<and>
     variant_url api fp ''avif'' (generateAvif (merge_options DEFAULT_TRANSFORM_OPTIONS options))
       avifStored (toLowerCase (img_format img)) (url_original urls) img q maxW maxH =
       Some (url_avif urls)"
proof -
  define q where "q = clampInt (toPositiveInt
      (quality (merge_options DEFAULT_TRANSFORM_OPTIONS options))
      (quality DEFAULT_TRANSFORM_OPTIONS)) 1 100"
  define maxW where "maxW = toPositiveInt
      (maxWidth (merge_options DEFAULT_TRANSFORM_OPTIONS options))
      (maxWidth DEFAULT_TRANSFORM_OPTIONS)"
  define maxH where "maxH = toPositiveInt
      (maxHeight (merge_options DEFAULT_TRANSFORM_OPTIONS options))
      (maxHeight DEFAULT_TRANSFORM_OPTIONS)"
  from assms have "\<exists>webpStored avifStored.
     buildPublicUrl api baseUrl (paths_original (img_paths img)) = Some (url_original urls) \<and>
     stored_url api baseUrl preferStored ''webp'' (toLowerCase (img_format img))
       (paths_original (img_paths img)) (paths_webp (img_paths img)) = Some webpStored \<and>
     stored_url api baseUrl preferStored ''avif'' (toLowerCase (img_format img))
       (paths_original (img_paths img)) (paths_avif (img_paths img)) = Some avifStored \<and>
     variant_url api fp ''webp'' (generateWebp (merge_options DEFAULT_TRANSFORM_OPTIONS options))
       webpStored (toLowerCase (img_format img)) (url_original urls) img q maxW maxH =
       Some (url_webp urls) \<and>
     variant_url api fp ''avif'' (generateAvif (merge_options DEFAULT_TRANSFORM_OPTIONS options))
       avifStored (toLowerCase (img_format img)) (url_original urls) img q maxW maxH =
       Some (url_avif urls)"
    by (auto simp add: buildImageUrls_def Let_def q_def maxW_def maxH_def split: option.splits)
  then show ?thesis by blast
qed

lemma stored_url_nonempty:
  "stored_url api baseUrl True fmt formatLower pathOriginal path = Some s \<Longrightarrow>
   path \<noteq> [] \<Longrightarrow> path \<noteq> pathOriginal \<or> formatLower = fmt \<Longrightarrow>
   \<forall>key base u. url_resolve api key base = Some u \<longrightarrow> u \<noteq> [] \<Longrightarrow>
   s \<noteq> []"
  by (auto simp add: stored_url_def buildPublicUrl_def Let_def split: if_splits)

lemma variant_url_off:
  "variant_url api fp fmt False stored formatLower originalUrl img q maxW maxH = Some []"
  by (simp add: variant_url_def)

lemma variant_url_nonempty:
  "variant_url api fp fmt True stored formatLower originalUrl img q maxW maxH = Some u \<Longrightarrow>
   originalUrl \<noteq> [] \<Longrightarrow>
   stored \<noteq> [] \<or> formatLower = fmt \<or>
     formatLower = ''jpeg'' \<or> formatLower = ''jpg'' \<or> formatLower = ''png'' \<Longrightarrow>
   u \<noteq> []"
  by (auto simp add: variant_url_def buildTransformedUrl_def Let_def
      split: if_splits option.splits)

lemma random_options_generate:
  "generateWebp (merge_options DEFAULT_TRANSFORM_OPTIONS (random_options img)) =
     (paths_webp (img_paths img) \<noteq> []) \<and>
   generateAvif (merge_options DEFAULT_TRANSFORM_OPTIONS (random_options img)) =
     (paths_avif (img_paths img) \<noteq> [])"
  by (simp add: merge_options_def random_options_def no_options_def)

lemma target_url_gif:
  "url_webp urls = [] \<Longrightarrow> url_avif urls = [] \<Longrightarrow> target_url env req img urls = url_original urls"
  by (simp add: target_url_def or_else_def Let_def)

lemma target_url_nonempty:
  "url_original urls \<noteq> [] \<Longrightarrow> target_url env req img urls \<noteq> []"
  by (simp add: target_url_def or_else_def Let_def)

text \<open>
  C9 as stated fails for non-GIF images: the random endpoint turns the generation of a
  format off when the image's stored path for it is empty, and then the resolved URL of
  that format is empty although the image is a JPEG, for which a transform URL could be
  built (and is built when generation is left on).
\<close>

theorem buildImageUrls_counterexample:
  "img_format bare_jpeg = ''jpeg'' \<and>
   buildImageUrls example_url_api exact_ops ''https://img.example'' bare_jpeg
     (random_options bare_jpeg) True =
     Some \<lparr> url_original = ''https://img.example/original/landscape/bare.jpeg'',
            url_webp = [], url_avif = [] \<rparr> \<and>
   map_option url_webp (buildImageUrls example_url_api exact_ops ''https://img.example''
     bare_jpeg no_options True) =
     Some ''https://img.example/cdn-cgi/image/format=webp,quality=90/original/landscape/bare.jpeg''"
proof -
  have 1: "img_format bare_jpeg = ''jpeg''" by code_simp
  have 2: "buildImageUrls example_url_api exact_ops ''https://img.example'' bare_jpeg
     (random_options bare_jpeg) True =
     Some \<lparr> url_original = ''https://img.example/original/landscape/bare.jpeg'',
            url_webp = [], url_avif = [] \<rparr>"
    by code_simp
  have 3: "map_option url_webp (buildImageUrls example_url_api exact_ops ''https://img.example''
      bare_jpeg no_options True) =
      Some ''https://img.example/cdn-cgi/image/format=webp,quality=90/original/landscape/bare.jpeg''"
    by code_simp
  from 1 2 3 show ?thesis by (intro conjI)
qed

text \<open>
  C9, amended. For every image whose format is GIF (in any letter case), the resolved
  WebP and AVIF URLs are empty and the random endpoint redirects to the original URL,
  whatever the requested format and the Accept header. For a non-GIF image, the resolved
  WebP (respectively AVIF) URL is not empty when the generation of that format is on -
  the random endpoint turns it on exactly when the image's stored path of that format is
  not empty - and a stored variant is present (a path other than the original's), or the
  image has that format itself, or it is a JPEG or PNG, for which a transform URL is
  built; with generation off the resolved URL is empty. The endpoint redirects to one of
  the resolved URLs, never to an empty one. (A URL the platform's URL class returns is
  taken to be non-empty, and the statement is about a resolution that returns: an
  invalid base URL makes the URL class throw.)
\<close>

theorem buildImageUrls_resolution:
  "buildImageUrls api fp baseUrl img options preferStored = Some urls \<and>
   (\<forall>key base u. url_resolve api key base = Some u \<longrightarrow> u \<noteq> []) \<longrightarrow>
   (toLowerCase (img_format img) = ''gif'' \<longrightarrow>
      url_webp urls = [] \<and> url_avif urls = [] \<and>
      target_url env req img urls = url_original urls) \<and>
   (toLowerCase (img_format img) \<noteq> ''gif'' \<longrightarrow>
      (let formatLower = toLowerCase (img_format img);
           opts = merge_options DEFAULT_TRANSFORM_OPTIONS options;
           transformable = (formatLower = ''jpeg'' \<or> formatLower = ''jpg'' \<or> formatLower = ''png'')
       in (\<not> generateWebp opts \<longrightarrow> url_webp urls = []) \<and>
          (\<not> generateAvif opts \<longrightarrow> url_avif urls = []) \<and>
          (generateWebp opts \<and>
           ((preferStored \<and> paths_webp (img_paths img) \<noteq> [] \<and>
             paths_webp (img_paths img) \<noteq> paths_original (img_paths img)) \<or>
            formatLower = ''webp'' \<or> transformable) \<longrightarrow> url_webp urls \<noteq> []) \<and>
          (generateAvif opts \<and>
           ((preferStored \<and> paths_avif (img_paths img) \<noteq> [] \<and>
             paths_avif (img_paths img) \<noteq> paths_original (img_paths img)) \<or>
            formatLower = ''avif'' \<or> transformable) \<longrightarrow> url_avif urls \<noteq> []))) \<and>
   url_original urls \<noteq> [] \<and>
   target_url env req img urls \<noteq> [] \<and>
   generateWebp (merge_options DEFAULT_TRANSFORM_OPTIONS (random_options img)) =
     (paths_webp (img_paths img) \<noteq> []) \<and>
   generateAvif (merge_options DEFAULT_TRANSFORM_OPTIONS (random_options img)) =
     (paths_avif (img_paths img) \<noteq> []) \<and>
   (api = r_urls env \<and> fp = r_arith env \<and> baseUrl = r_public_url env \<and>
    options = random_options img \<and> preferStored \<and>
    getRandomImage (r_db env) (r_rnd env) (request_filters env req) = Some img \<longrightarrow>
      randomHandler env req = Redirect (target_url env req img urls) \<and>
      (toLowerCase (img_format img) = ''gif'' \<longrightarrow>
         (\<forall>fmt accept.
            randomHandler env (req \<lparr> q_format := fmt, h_accept := accept \<rparr>) =
              Redirect (url_original urls))) \<and>
      (toLowerCase (img_format img) \<noteq> ''gif'' \<longrightarrow>
         (let formatLower = toLowerCase (img_format img);
              transformable =
                (formatLower = ''jpeg'' \<or> formatLower = ''jpg'' \<or> formatLower = ''png'')
          in (paths_webp (img_paths img) = [] \<longrightarrow> url_webp urls = []) \<and>
             (paths_avif (img_paths img) = [] \<longrightarrow> url_avif urls = []) \<and>
             (paths_webp (img_paths img) \<noteq> [] \<and>
              (paths_webp (img_paths img) \<noteq> paths_original (img_paths img) \<or>
               formatLower = ''webp'' \<or> transformable) \<longrightarrow> url_webp urls \<noteq> []) \<and>
             (paths_avif (img_paths img) \<noteq> [] \<and>
              (paths_avif (img_paths img) \<noteq> paths_original (img_paths img) \<or>
               formatLower = ''avif'' \<or> transformable) \<longrightarrow> url_avif urls \<noteq> []))))"
proof (intro impI)
  assume h: "buildImageUrls api fp baseUrl img options preferStored = Some urls \<and>
   (\<forall>key base u. url_resolve api key base = Some u \<longrightarrow> u \<noteq> [])"
  then have b: "buildImageUrls api fp baseUrl img options preferStored = Some urls"
    and ne: "\<forall>key base u. url_resolve api key base = Some u \<longrightarrow> u \<noteq> []" by auto
  have orig: "url_original urls \<noteq> []"
  proof -
    have "buildPublicUrl api baseUrl (paths_original (img_paths img)) = Some (url_original urls)"
      using b by (auto simp add: buildImageUrls_def Let_def split: option.splits if_splits)
    then show ?thesis using ne by (auto simp add: buildPublicUrl_def Let_def)
  qed
  have gif: "toLowerCase (img_format img) = ''gif'' \<longrightarrow>
      url_webp urls = [] \<and> url_avif urls = [] \<and>
      target_url env req img urls = url_original urls"
  proof
    assume g: "toLowerCase (img_format img) = ''gif''"
    from b have "url_webp urls = [] \<and> url_avif urls = []"
      unfolding buildImageUrls_gif[OF g] by (auto split: option.splits)
    then show "url_webp urls = [] \<and> url_avif urls = [] \<and>
      target_url env req img urls = url_original urls"
      by (simp add: target_url_gif)
  qed
  have nongif: "toLowerCase (img_format img) \<noteq> ''gif'' \<longrightarrow>
      (let formatLower = toLowerCase (img_format img);
           opts = merge_options DEFAULT_TRANSFORM_OPTIONS options;
           transformable = (formatLower = ''jpeg'' \<or> formatLower = ''jpg'' \<or> formatLower = ''png'')
       in (\<not> generateWebp opts \<longrightarrow> url_webp urls = []) \<and>
          (\<not> generateAvif opts \<longrightarrow> url_avif urls = []) \<and>
          (generateWebp opts \<and>
           ((preferStored \<and> paths_webp (img_paths img) \<noteq> [] \<and>
             paths_webp (img_paths img) \<noteq> paths_original (img_paths img)) \<or>
            formatLower = ''webp'' \<or> transformable) \<longrightarrow> url_webp urls \<noteq> []) \<and>
          (generateAvif opts \<and>
           ((preferStored \<and> paths_avif (img_paths img) \<noteq> [] \<and>
             paths_avif (img_paths img) \<noteq> paths_original (img_paths img)) \<or>
            formatLower = ''avif'' \<or> transformable) \<longrightarrow> url_avif urls \<noteq> []))"
  proof
    assume ng: "toLowerCase (img_format img) \<noteq> ''gif''"
    define fl where "fl = toLowerCase (img_format img)"
    define opts where "opts = merge_options DEFAULT_TRANSFORM_OPTIONS options"
    from buildImageUrls_parts[OF b ng] obtain webpStored avifStored q maxW maxH where
      sw: "stored_url api baseUrl preferStored ''webp'' fl
         (paths_original (img_paths img)) (paths_webp (img_paths img)) = Some webpStored"
      and sa: "stored_url api baseUrl preferStored ''avif'' fl
         (paths_original (img_paths img)) (paths_avif (img_paths img)) = Some avifStored"
      and vw: "variant_url api fp ''webp'' (generateWebp opts) webpStored fl
         (url_original urls) img q maxW maxH = Some (url_webp urls)"
      and va: "variant_url api fp ''avif'' (generateAvif opts) avifStored fl
         (url_original urls) img q maxW maxH = Some (url_avif urls)"
      unfolding fl_def opts_def by blast
    have w0: "\<not> generateWebp opts \<longrightarrow> url_webp urls = []"
      using vw by (auto simp add: variant_url_off)
    have a0: "\<not> generateAvif opts \<longrightarrow> url_avif urls = []"
      using va by (auto simp add: variant_url_off)
    have w1: "generateWebp opts \<and>
           ((preferStored \<and> paths_webp (img_paths img) \<noteq> [] \<and>
             paths_webp (img_paths img) \<noteq> paths_original (img_paths img)) \<or>
            fl = ''webp'' \<or> (fl = ''jpeg'' \<or> fl = ''jpg'' \<or> fl = ''png'')) \<longrightarrow>
           url_webp urls \<noteq> []"
    proof
      assume c: "generateWebp opts \<and>
           ((preferStored \<and> paths_webp (img_paths img) \<noteq> [] \<and>
             paths_webp (img_paths img) \<noteq> paths_original (img_paths img)) \<or>
            fl = ''webp'' \<or> (fl = ''jpeg'' \<or> fl = ''jpg'' \<or> fl = ''png''))"
      then have g: "generateWebp opts" by simp
      have "webpStored \<noteq> [] \<or> fl = ''webp'' \<or>
          fl = ''jpeg'' \<or> fl = ''jpg'' \<or> fl = ''png''"
        using c orig stored_url_nonempty[OF _ _ _ ne, of baseUrl "''webp''" fl
            "paths_original (img_paths img)" "paths_webp (img_paths img)" webpStored] sw
        by auto
      then show "url_webp urls \<noteq> []"
        using variant_url_nonempty[of api fp "''webp''" webpStored fl "url_original urls"
            img q maxW maxH "url_webp urls"] vw g orig
        by simp
    qed
    have a1: "generateAvif opts \<and>
           ((preferStored \<and> paths_avif (img_paths img) \<noteq> [] \<and>
             paths_avif (img_paths img) \<noteq> paths_original (img_paths img)) \<or>
            fl = ''avif'' \<or> (fl = ''jpeg'' \<or> fl = ''jpg'' \<or> fl = ''png'')) \<longrightarrow>
           url_avif urls \<noteq> []"
    proof
      assume c: "generateAvif opts \<and>
           ((preferStored \<and> paths_avif (img_paths img) \<noteq> [] \<and>
             paths_avif (img_paths img) \<noteq> paths_original (img_paths img)) \<or>
            fl = ''avif'' \<or> (fl = ''jpeg'' \<or> fl = ''jpg'' \<or> fl = ''png''))"
      then have g: "generateAvif opts" by simp
      have "avifStored \<noteq> [] \<or> fl = ''avif'' \<or>
          fl = ''jpeg'' \<or> fl = ''jpg'' \<or> fl = ''png''"
        using c orig stored_url_nonempty[OF _ _ _ ne, of baseUrl "''avif''" fl
            "paths_original (img_paths img)" "paths_avif (img_paths img)" avifStored] sa
        by auto
      then show "url_avif urls \<noteq> []"
        using variant_url_nonempty[of api fp "''avif''" avifStored fl "url_original urls"
            img q maxW maxH "url_avif urls"] va g orig
        by simp
    qed
    from w0 a0 w1 a1 show "let formatLower = toLowerCase (img_format img);
           opts = merge_options DEFAULT_TRANSFORM_OPTIONS options;
           transformable = (formatLower = ''jpeg'' \<or> formatLower = ''jpg'' \<or> formatLower = ''png'')
       in (\<not> generateWebp opts \<longrightarrow> url_webp urls = []) \<and>
          (\<not> generateAvif opts \<longrightarrow> url_avif urls = []) \<and>
          (generateWebp opts \<and>
           ((preferStored \<and> paths_webp (img_paths img) \<noteq> [] \<and>
             paths_webp (img_paths img) \<noteq> paths_original (img_paths img)) \<or>
            formatLower = ''webp'' \<or> transformable) \<longrightarrow> url_webp urls \<noteq> []) \<and>
          (generateAvif opts \<and>
           ((preferStored \<and> paths_avif (img_paths img) \<noteq> [] \<and>
             paths_avif (img_paths img) \<noteq> paths_original (img_paths img)) \<or>
            formatLower = ''avif'' \<or> transformable) \<longrightarrow> url_avif urls \<noteq> [])"
      unfolding Let_def fl_def[symmetric] opts_def[symmetric] by blast
  qed
  have handler: "api = r_urls env \<and> fp = r_arith env \<and> baseUrl = r_public_url env \<and>
    options = random_options img \<and> preferStored \<and>
    getRandomImage (r_db env) (r_rnd env) (request_filters env req) = Some img \<longrightarrow>
      randomHandler env req = Redirect (target_url env req img urls) \<and>
      (toLowerCase (img_format img) = ''gif'' \<longrightarrow>
         (\<forall>fmt accept.
            randomHandler env (req \<lparr> q_format := fmt, h_accept := accept \<rparr>) =
              Redirect (url_original urls))) \<and>
      (toLowerCase (img_format img) \<noteq> ''gif'' \<longrightarrow>
         (let formatLower = toLowerCase (img_format img);
              transformable =
                (formatLower = ''jpeg'' \<or> formatLower = ''jpg'' \<or> formatLower = ''png'')
          in (paths_webp (img_paths img) = [] \<longrightarrow> url_webp urls = []) \<and>
             (paths_avif (img_paths img) = [] \<longrightarrow> url_avif urls = []) \<and>
             (paths_webp (img_paths img) \<noteq> [] \<and>
              (paths_webp (img_paths img) \<noteq> paths_original (img_paths img) \<or>
               formatLower = ''webp'' \<or> transformable) \<longrightarrow> url_webp urls \<noteq> []) \<and>
             (paths_avif (img_paths img) \<noteq> [] \<and>
              (paths_avif (img_paths img) \<noteq> paths_original (img_paths img) \<or>
               formatLower = ''avif'' \<or> transformable) \<longrightarrow> url_avif urls \<noteq> [])))"
  proof (intro impI, elim conjE)
    assume e: "api = r_urls env" "fp = r_arith env" "baseUrl = r_public_url env"
      "options = random_options img" "preferStored"
      and g: "getRandomImage (r_db env) (r_rnd env) (request_filters env req) = Some img"
    have bu: "buildImageUrls (r_urls env) (r_arith env) (r_public_url env) img
        (random_options img) True = Some urls"
      using b e by simp
    have run: "randomHandler env r = Redirect (target_url env r img urls)"
      if "request_filters env r = request_filters env req" for r
      using that g bu target_url_nonempty[OF orig, of env r img]
      by (simp add: randomHandler_def Let_def)
    have h1: "randomHandler env req = Redirect (target_url env req img urls)"
      by (rule run) simp
    have h2: "toLowerCase (img_format img) = ''gif'' \<longrightarrow>
         (\<forall>fmt accept.
            randomHandler env (req \<lparr> q_format := fmt, h_accept := accept \<rparr>) =
              Redirect (url_original urls))"
    proof (intro impI allI)
      fix fmt accept
      assume lg: "toLowerCase (img_format img) = ''gif''"
      have same: "request_filters env (req \<lparr> q_format := fmt, h_accept := accept \<rparr>) =
          request_filters env req"
        by (simp add: request_filters_def request_orientation_def)
      from gif lg have "url_webp urls = []" "url_avif urls = []" by simp_all
      then have "target_url env (req \<lparr> q_format := fmt, h_accept := accept \<rparr>) img urls =
          url_original urls"
        by (rule target_url_gif)
      with run[OF same]
      show "randomHandler env (req \<lparr> q_format := fmt, h_accept := accept \<rparr>) =
              Redirect (url_original urls)"
        by simp
    qed
    have h3: "toLowerCase (img_format img) \<noteq> ''gif'' \<longrightarrow>
         (let formatLower = toLowerCase (img_format img);
              transformable =
                (formatLower = ''jpeg'' \<or> formatLower = ''jpg'' \<or> formatLower = ''png'')
          in (paths_webp (img_paths img) = [] \<longrightarrow> url_webp urls = []) \<and>
             (paths_avif (img_paths img) = [] \<longrightarrow> url_avif urls = []) \<and>
             (paths_webp (img_paths img) \<noteq> [] \<and>
              (paths_webp (img_paths img) \<noteq> paths_original (img_paths img) \<or>
               formatLower = ''webp'' \<or> transformable) \<longrightarrow> url_webp urls \<noteq> []) \<and>
             (paths_avif (img_paths img) \<noteq> [] \<and>
              (paths_avif (img_paths img) \<noteq> paths_original (img_paths img) \<or>
               formatLower = ''avif'' \<or> transformable) \<longrightarrow> url_avif urls \<noteq> []))"
    proof
      assume ng: "toLowerCase (img_format img) \<noteq> ''gif''"
      note n = nongif[rule_format, OF ng, unfolded Let_def e(4) random_options_generate[THEN conjunct1]
          random_options_generate[THEN conjunct2]]
      from n e(5) show "let formatLower = toLowerCase (img_format img);
              transformable =
                (formatLower = ''jpeg'' \<or> formatLower = ''jpg'' \<or> formatLower = ''png'')
          in (paths_webp (img_paths img) = [] \<longrightarrow> url_webp urls = []) \<and>
             (paths_avif (img_paths img) = [] \<longrightarrow> url_avif urls = []) \<and>
             (paths_webp (img_paths img) \<noteq> [] \<and>
              (paths_webp (img_paths img) \<noteq> paths_original (img_paths img) \<or>
               formatLower = ''webp'' \<or> transformable) \<longrightarrow> url_webp urls \<noteq> []) \<and>
             (paths_avif (img_paths img) \<noteq> [] \<and>
              (paths_avif (img_paths img) \<noteq> paths_original (img_paths img) \<or>
               formatLower = ''avif'' \<or> transformable) \<longrightarrow> url_avif urls \<noteq> [])"
        unfolding Let_def by blast
    qed
    from h1 h2 h3 show "randomHandler env req = Redirect (target_url env req img urls) \<and>
      (toLowerCase (img_format img) = ''gif'' \<longrightarrow>
         (\<forall>fmt accept.
            randomHandler env (req \<lparr> q_format := fmt, h_accept := accept \<rparr>) =
              Redirect (url_original urls))) \<and>
      (toLowerCase (img_format img) \<noteq> ''gif'' \<longrightarrow>
         (let formatLower = toLowerCase (img_format img);
              transformable =
                (formatLower = ''jpeg'' \<or> formatLower = ''jpg'' \<or> formatLower = ''png'')
          in (paths_webp (img_paths img) = [] \<longrightarrow> url_webp urls = []) \<and>
             (paths_avif (img_paths img) = [] \<longrightarrow> url_avif urls = []) \<and>
             (paths_webp (img_paths img) \<noteq> [] \<and>
              (paths_webp (img_paths img) \<noteq> paths_original (img_paths img) \<or>
               formatLower = ''webp'' \<or> transformable) \<longrightarrow> url_webp urls \<noteq> []) \<and>
             (paths_avif (img_paths img) \<noteq> [] \<and>
              (paths_avif (img_paths img) \<noteq> paths_original (img_paths img) \<or>
               formatLower = ''avif'' \<or> transformable) \<longrightarrow> url_avif urls \<noteq> [])))"
      by (intro conjI)
  qed
  from gif nongif orig target_url_nonempty[OF orig] random_options_generate handler
  show "(toLowerCase (img_format img) = ''gif'' \<longrightarrow>
      url_webp urls = [] \<and> url_avif urls = [] \<and>
      target_url env req img urls = url_original urls) \<and>
   (toLowerCase (img_format img) \<noteq> ''gif'' \<longrightarrow>
      (let formatLower = toLowerCase (img_format img);
           opts = merge_options DEFAULT_TRANSFORM_OPTIONS options;
           transformable = (formatLower = ''jpeg'' \<or> formatLower = ''jpg'' \<or> formatLower = ''png'')
       in (\<not> generateWebp opts \<longrightarrow> url_webp urls = []) \<and>
          (\<not> generateAvif opts \<longrightarrow> url_avif urls = []) \<and>
          (generateWebp opts \<and>
           ((preferStored \<and> paths_webp (img_paths img) \<noteq> [] \<and>
             paths_webp (img_paths img) \<noteq> paths_original (img_paths img)) \<or>
            formatLower = ''webp'' \<or> transformable) \<longrightarrow> url_webp urls \<noteq> []) \<and>
          (generateAvif opts \<and>
           ((preferStored \<and> paths_avif (img_paths img) \<noteq> [] \<and>
             paths_avif (img_paths img) \<noteq> paths_original (img_paths img)) \<or>
            formatLower = ''avif'' \<or> transformable) \<longrightarrow> url_avif urls \<noteq> []))) \<and>
   url_original urls \<noteq> [] \<and>
   target_url env req img urls \<noteq> [] \<and>
   generateWebp (merge_options DEFAULT_TRANSFORM_OPTIONS (random_options img)) =
     (paths_webp (img_paths img) \<noteq> []) \<and>
   generateAvif (merge_options DEFAULT_TRANSFORM_OPTIONS (random_options img)) =
     (paths_avif (img_paths img) \<noteq> []) \<and>
   (api = r_urls env \<and> fp = r_arith env \<and> baseUrl = r_public_url env \<and>
    options = random_options img \<and> preferStored \<and>
    getRandomImage (r_db env) (r_rnd env) (request_filters env req) = Some img \<longrightarrow>
      randomHandler env req = Redirect (target_url env req img urls) \<and>
      (toLowerCase (img_format img) = ''gif'' \<longrightarrow>
         (\<forall>fmt accept.
            randomHandler env (req \<lparr> q_format := fmt, h_accept := accept \<rparr>) =
              Redirect (url_original urls))) \<and>
      (toLowerCase (img_format img) \<noteq> ''gif'' \<longrightarrow>
         (let formatLower = toLowerCase (img_format img);
              transformable =
                (formatLower = ''jpeg'' \<or> formatLower = ''jpg'' \<or> formatLower = ''png'')
          in (paths_webp (img_paths img) = [] \<longrightarrow> url_webp urls = []) \<and>
             (paths_avif (img_paths img) = [] \<longrightarrow> url_avif urls = []) \<and>
             (paths_webp (img_paths img) \<noteq> [] \<and>
              (paths_webp (img_paths img) \<noteq> paths_original (img_paths img) \<or>
               formatLower = ''webp'' \<or> transformable) \<longrightarrow> url_webp urls \<noteq> []) \<and>
             (paths_avif (img_paths img) \<noteq> [] \<and>
              (paths_avif (img_paths img) \<noteq> paths_original (img_paths img) \<or>
               formatLower = ''avif'' \<or> transformable) \<longrightarrow> url_avif urls \<noteq> []))))"
    by blast
qed

theorem buildImageUrls_resolution_witness:
  "\<not> (\<exists>key base. url_resolve example_url_api key base = Some []) \<and>
   toLowerCase (img_format example_gif_record) = ''gif'' \<and>
   buildImageUrls example_url_api exact_ops ''https://img.example'' example_gif_record
     (random_options example_gif_record) True =
     Some \<lparr> url_original = ''https://img.example/original/landscape/anim.gif'',
            url_webp = [], url_avif = [] \<rparr> \<and>
   target_url example_random_env (example_request \<lparr> q_format := Some ''webp'' \<rparr>) example_gif_record
     \<lparr> url_original = ''https://img.example/original/landscape/anim.gif'',
       url_webp = [], url_avif = [] \<rparr> = ''https://img.example/original/landscape/anim.gif'' \<and>
   getRandomImage (r_db gif_random_env) (r_rnd gif_random_env)
     (request_filters gif_random_env example_request) = Some example_gif_record \<and>
   randomHandler gif_random_env
     (example_request \<lparr> q_format := Some ''webp'', h_accept := Some ''image/webp'' \<rparr>) =
     Redirect ''https://img.example/original/landscape/anim.gif'' \<and>
   toLowerCase (img_format tabby_record) \<noteq> ''gif'' \<and>
   generateWebp (merge_options DEFAULT_TRANSFORM_OPTIONS (random_options tabby_record)) \<and>
   paths_webp (img_paths tabby_record) \<noteq> [] \<and>
   paths_webp (img_paths tabby_record) \<noteq> paths_original (img_paths tabby_record) \<and>
   (\<exists>urls. buildImageUrls example_url_api exact_ops ''https://img.example'' tabby_record
        (random_options tabby_record) True = Some urls \<and>
      url_webp urls = ''https://img.example/landscape/webp/tabby.webp'' \<and>
      url_webp urls \<noteq> [] \<and>
      target_url example_random_env example_request tabby_record urls \<noteq> [] \<and>
      randomHandler example_random_env example_request =
        Redirect (target_url example_random_env example_request tabby_record urls)) \<and>
   getRandomImage (r_db example_random_env) (r_rnd example_random_env)
     (request_filters example_random_env example_request) = Some tabby_record"
proof -
  let ?g = "\<lparr> url_original = ''https://img.example/original/landscape/anim.gif'',
       url_webp = [], url_avif = [] \<rparr>"
  let ?req = "example_request \<lparr> q_format := Some ''webp'' \<rparr>"
  have ne: "\<forall>key base u. url_resolve example_url_api key base = Some u \<longrightarrow> u \<noteq> []"
    by (auto simp add: example_url_api_def split: if_splits)
  have lg: "toLowerCase (img_format example_gif_record) = ''gif''" by code_simp
  have bg: "buildImageUrls example_url_api exact_ops ''https://img.example'' example_gif_record
     (random_options example_gif_record) True = Some ?g"
    by code_simp
  note tg = buildImageUrls_resolution[where api = example_url_api and fp = exact_ops
      and baseUrl = "''https://img.example''" and img = example_gif_record
      and options = "random_options example_gif_record" and preferStored = True and urls = "?g"
      and env = example_random_env and req = "?req", rule_format, OF conjI[OF bg ne]]
  from tg[THEN conjunct1, rule_format, OF lg]
  have dg: "target_url example_random_env ?req example_gif_record ?g =
      ''https://img.example/original/landscape/anim.gif''"
    by simp
  have eg: "example_url_api = r_urls gif_random_env" "exact_ops = r_arith gif_random_env"
    "''https://img.example'' = r_public_url gif_random_env"
    by (simp_all add: gif_random_env_def example_random_env_def)
  have rg: "getRandomImage (r_db gif_random_env) (r_rnd gif_random_env)
     (request_filters gif_random_env example_request) = Some example_gif_record"
    by code_simp
  note th = buildImageUrls_resolution[where api = example_url_api and fp = exact_ops
      and baseUrl = "''https://img.example''" and img = example_gif_record
      and options = "random_options example_gif_record" and preferStored = True and urls = "?g"
      and env = gif_random_env and req = example_request, rule_format, OF conjI[OF bg ne]]
  note hg = th[THEN conjunct2, THEN conjunct2, THEN conjunct2, THEN conjunct2, THEN conjunct2,
      THEN conjunct2, rule_format,
      OF conjI[OF eg(1) conjI[OF eg(2) conjI[OF eg(3) conjI[OF refl conjI[OF TrueI rg]]]]]]
  from hg[THEN conjunct2, THEN conjunct1, rule_format, OF lg,
      where fmt = "Some ''webp''" and accept = "Some ''image/webp''"]
  have hgif: "randomHandler gif_random_env
     (example_request \<lparr> q_format := Some ''webp'', h_accept := Some ''image/webp'' \<rparr>) =
     Redirect ''https://img.example/original/landscape/anim.gif''"
    by simp
  have lt: "toLowerCase (img_format tabby_record) \<noteq> ''gif''" by code_simp
  have gw: "generateWebp (merge_options DEFAULT_TRANSFORM_OPTIONS (random_options tabby_record))"
    by code_simp
  have p1: "paths_webp (img_paths tabby_record) \<noteq> []" by code_simp
  have p2: "paths_webp (img_paths tabby_record) \<noteq> paths_original (img_paths tabby_record)"
    by code_simp
  have "map_option url_webp (buildImageUrls example_url_api exact_ops ''https://img.example''
      tabby_record (random_options tabby_record) True) =
      Some ''https://img.example/landscape/webp/tabby.webp''"
    by code_simp
  then obtain urls where bt: "buildImageUrls example_url_api exact_ops ''https://img.example''
      tabby_record (random_options tabby_record) True = Some urls"
    and uw: "url_webp urls = ''https://img.example/landscape/webp/tabby.webp''"
    by auto
  note tt = buildImageUrls_resolution[where api = example_url_api and fp = exact_ops
      and baseUrl = "''https://img.example''" and img = tabby_record
      and options = "random_options tabby_record" and preferStored = True and urls = urls
      and env = example_random_env and req = example_request, rule_format, OF conjI[OF bt ne]]
  from tt[THEN conjunct2, THEN conjunct1, rule_format, OF lt] gw p1 p2
  have w: "url_webp urls \<noteq> []" by (simp add: Let_def)
  from tt[THEN conjunct2, THEN conjunct2, THEN conjunct2, THEN conjunct1]
  have d: "target_url example_random_env example_request tabby_record urls \<noteq> []" .
  have et: "example_url_api = r_urls example_random_env" "exact_ops = r_arith example_random_env"
    "''https://img.example'' = r_public_url example_random_env"
    by (simp_all add: example_random_env_def)
  have rt: "getRandomImage (r_db example_random_env) (r_rnd example_random_env)
     (request_filters example_random_env example_request) = Some tabby_record"
    by code_simp
  note ht = tt[THEN conjunct2, THEN conjunct2, THEN conjunct2, THEN conjunct2, THEN conjunct2,
      THEN conjunct2, rule_format,
      OF conjI[OF et(1) conjI[OF et(2) conjI[OF et(3) conjI[OF refl conjI[OF TrueI rt]]]]]]
  from ht[THEN conjunct1]
  have r: "randomHandler example_random_env example_request =
        Redirect (target_url example_random_env example_request tabby_record urls)" .
  from bt uw w d r have t: "\<exists>urls. buildImageUrls example_url_api exact_ops ''https://img.example'' tabby_record
        (random_options tabby_record) True = Some urls \<and>
      url_webp urls = ''https://img.example/landscape/webp/tabby.webp'' \<and>
      url_webp urls \<noteq> [] \<and>
      target_url example_random_env example_request tabby_record urls \<noteq> [] \<and>
      randomHandler example_random_env example_request =
        Redirect (target_url example_random_env example_request tabby_record urls)"
    by blast
  have n: "\<not> (\<exists>key base. url_resolve example_url_api key base = Some [])"
    using ne by blast
  from n lg bg dg rg hgif lt gw p1 p2 t rt show ?thesis by (intro conjI)
qed

section \<open>Target dimensions\<close>

lemma exact_ops_accurate: "fp_accurate exact_ops"
  by (simp add: fp_accurate_def exact_ops_def)

lemma round_le:
  fixes p :: rat and m :: int
  assumes "p < of_int m + 1 / 2"
  shows "\<lfloor>p + 1 / 2\<rfloor> \<le> m"
proof -
  have "p + 1 / 2 < of_int (m + 1)" using assms by simp
  then have "\<lfloor>p + 1 / 2\<rfloor> < m + 1" by (simp only: floor_less_iff)
  then show ?thesis by simp
qed

lemma round_close:
  fixes p :: rat
  shows "\<bar>of_int \<lfloor>p + 1 / 2\<rfloor> - p\<bar> \<le> 1 / 2"
proof -
  have "of_int \<lfloor>p + 1 / 2\<rfloor> \<le> p + 1 / 2" by (rule of_int_floor_le)
  moreover have "p + 1 / 2 < of_int (\<lfloor>p + 1 / 2\<rfloor> + 1)"
    by (rule floor_correct[THEN conjunct2])
  then have "p + 1 / 2 < of_int \<lfloor>p + 1 / 2\<rfloor> + 1" by simp
  ultimately show ?thesis by linarith
qed

text \<open>The exact quotient of a bound by a dimension, for pixel counts up to \<open>2\<^sup>2\<^sup>4\<close>.\<close>

lemma quotient_size:
  fixes m x :: int
  assumes x: "0 < x" "x \<le> 2 ^ 24" and m: "\<bar>m\<bar> \<le> 2 ^ 24"
  shows "\<bar>of_int m / of_int x :: rat\<bar> \<le> 2 ^ 24"
    and "m \<noteq> 0 \<Longrightarrow> 1 / 2 ^ 24 \<le> \<bar>of_int m / of_int x :: rat\<bar>"
    and "moderate (of_int m / of_int x)"
proof -
  have xr: "(1::rat) \<le> of_int x" "(of_int x :: rat) \<le> 2 ^ 24"
    using x by simp_all
  have "(of_int \<bar>m\<bar> :: rat) \<le> 2 ^ 24"
    using m by (simp only: of_int_le_numeral_power_cancel_iff)
  then have mr: "\<bar>of_int m :: rat\<bar> \<le> 2 ^ 24" by simp
  have eq: "\<bar>of_int m / of_int x :: rat\<bar> = \<bar>of_int m\<bar> / of_int x"
    using xr by simp
  show up: "\<bar>of_int m / of_int x :: rat\<bar> \<le> 2 ^ 24"
    unfolding eq using xr mr by (simp add: pos_divide_le_eq) 
  show lo: "1 / 2 ^ 24 \<le> \<bar>of_int m / of_int x :: rat\<bar>" if "m \<noteq> 0"
  proof -
    from that have "1 \<le> \<bar>m\<bar>" by simp
    then have "(1::rat) \<le> of_int \<bar>m\<bar>" by (simp only: of_int_1_le_iff)
    then have "(1::rat) \<le> \<bar>of_int m\<bar>" by simp
    then show ?thesis unfolding eq using xr by (simp add: pos_le_divide_eq)
  qed
  show "moderate (of_int m / of_int x)"
  proof (cases "m = 0")
    case True then show ?thesis by (simp add: moderate_def)
  next
    case False
    have "(1::rat) / 2 ^ 64 \<le> 1 / 2 ^ 24" by simp
    with lo[OF False] have "1 / 2 ^ 64 \<le> \<bar>of_int m / of_int x :: rat\<bar>"
      by (rule order_trans[rotated])
    moreover have "(2::rat) ^ 24 \<le> 2 ^ 64" by simp
    with up have "\<bar>of_int m / of_int x :: rat\<bar> \<le> 2 ^ 64"
      by (rule order_trans)
    ultimately show ?thesis unfolding moderate_def by blast
  qed
qed

text \<open>The computed quotient of a bound by a dimension is close to the exact one.\<close>

lemma fdiv_close:
  fixes m x :: int
  assumes acc: "fp_accurate fp" and x: "0 < x" "x \<le> 2 ^ 24" and m: "\<bar>m\<bar> \<le> 2 ^ 24"
  defines "q \<equiv> (of_int m / of_int x :: rat)"
  defines "f \<equiv> fdiv fp (of_int m) (of_int x)"
  shows "\<bar>f - q\<bar> \<le> \<bar>q\<bar> / 2 ^ 53"
    and "\<bar>f - q\<bar> \<le> 2 ^ 24 / 2 ^ 53"
    and "\<bar>f\<bar> \<le> 2 ^ 24 * (1 + 1 / 2 ^ 53)"
    and "f = 0 \<or> (1 - 1 / 2 ^ 53) / 2 ^ 24 \<le> \<bar>f\<bar>"
proof -
  have x0: "(of_int x :: rat) \<noteq> 0" using x by simp
  have md: "moderate q" unfolding q_def using x m by (rule quotient_size(3))
  have qs: "\<bar>q\<bar> \<le> 2 ^ 24" unfolding q_def using x m by (rule quotient_size(1))
  show c: "\<bar>f - q\<bar> \<le> \<bar>q\<bar> / 2 ^ 53"
    using acc x0 md unfolding fp_accurate_def f_def q_def by blast
  have "\<bar>q\<bar> / 2 ^ 53 \<le> 2 ^ 24 / 2 ^ 53" using qs by (simp add: divide_right_mono)
  with c show c2: "\<bar>f - q\<bar> \<le> 2 ^ 24 / 2 ^ 53" by (rule order_trans)
  have "\<bar>f\<bar> \<le> \<bar>q\<bar> + \<bar>f - q\<bar>" by linarith
  also have "\<dots> \<le> 2 ^ 24 + 2 ^ 24 / 2 ^ 53" using qs c2 by linarith
  finally show "\<bar>f\<bar> \<le> 2 ^ 24 * (1 + 1 / 2 ^ 53)" by (simp add: algebra_simps)
  show "f = 0 \<or> (1 - 1 / 2 ^ 53) / 2 ^ 24 \<le> \<bar>f\<bar>"
  proof (cases "m = 0")
    case True
    then have "q = 0" by (simp add: q_def)
    with c have "f = 0" by simp
    then show ?thesis by simp
  next
    case False
    have lo: "1 / 2 ^ 24 \<le> \<bar>q\<bar>" unfolding q_def using x m False by (rule quotient_size(2))
    have "\<bar>q\<bar> - \<bar>q\<bar> / 2 ^ 53 \<le> \<bar>f\<bar>" using c by linarith
    moreover have "(1 - 1 / 2 ^ 53) / 2 ^ 24 \<le> \<bar>q\<bar> - \<bar>q\<bar> / 2 ^ 53"
    proof -
      have "\<bar>q\<bar> - \<bar>q\<bar> / 2 ^ 53 = \<bar>q\<bar> * (1 - 1 / 2 ^ 53)" by (simp add: algebra_simps)
      moreover have "1 / 2 ^ 24 * (1 - 1 / 2 ^ 53) \<le> \<bar>q\<bar> * (1 - 1 / 2 ^ 53 :: rat)"
        using lo by (intro mult_right_mono) simp_all
      ultimately show ?thesis by simp
    qed
    ultimately show ?thesis by linarith
  qed
qed

text \<open>
  One target dimension: the rounded product of the source dimension \<open>x\<close> and a scale
  that is at most the computed quotient of the bound \<open>m\<close> by \<open>x\<close>.
\<close>

lemma scaled_dimension:
  fixes x m :: int and sc s :: rat
  assumes acc: "fp_accurate fp" and x: "0 < x" "x \<le> 2 ^ 24" and m: "\<bar>m\<bar> \<le> 2 ^ 24"
    and own: "sc \<le> fdiv fp (of_int m) (of_int x)"
    and size: "\<bar>sc\<bar> \<le> 2 ^ 24 * (1 + 1 / 2 ^ 53)"
    and small: "sc = 0 \<or> (1 - 1 / 2 ^ 53) / 2 ^ 24 \<le> \<bar>sc\<bar>"
    and near: "\<bar>sc - s\<bar> \<le> 2 ^ 24 / 2 ^ 53"
  shows "\<lfloor>fmul fp (of_int x) sc + 1 / 2\<rfloor> \<le> m"
    and "\<bar>of_int \<lfloor>fmul fp (of_int x) sc + 1 / 2\<rfloor> - of_int x * s\<bar> < 1"
proof -
  define X :: rat where "X = of_int x"
  define P where "P = X * sc"
  define pw where "pw = fmul fp X sc"
  define q :: rat where "q = of_int m / of_int x"
  have X1: "1 \<le> X" and XB: "X \<le> 2 ^ 24" using x by (simp_all add: X_def)
  have X0: "0 \<le> X" using X1 by simp
  have absP: "\<bar>P\<bar> = X * \<bar>sc\<bar>" using X0 by (simp add: P_def abs_mult)
  have Pup: "\<bar>P\<bar> \<le> 2 ^ 24 * (2 ^ 24 * (1 + 1 / 2 ^ 53))"
    unfolding absP using XB size X0 by (intro mult_mono) simp_all
  have Plo: "P = 0 \<or> (1 - 1 / 2 ^ 53) / 2 ^ 24 \<le> \<bar>P\<bar>"
  proof (cases "sc = 0")
    case True then show ?thesis by (simp add: P_def)
  next
    case False
    with small have l: "(1 - 1 / 2 ^ 53) / 2 ^ 24 \<le> \<bar>sc\<bar>" by simp
    have "0 \<le> (X - 1) * \<bar>sc\<bar>" using X1 by (intro mult_nonneg_nonneg) simp_all
    then have "\<bar>sc\<bar> \<le> X * \<bar>sc\<bar>" by (simp add: algebra_simps)
    with l show ?thesis unfolding absP by linarith
  qed
  have mdP: "moderate P"
  proof (cases "P = 0")
    case True then show ?thesis by (simp add: moderate_def)
  next
    case False
    with Plo have "(1 - 1 / 2 ^ 53) / 2 ^ 24 \<le> \<bar>P\<bar>" by simp
    moreover have "(1::rat) / 2 ^ 64 \<le> (1 - 1 / 2 ^ 53) / 2 ^ 24" by simp
    ultimately have "1 / 2 ^ 64 \<le> \<bar>P\<bar>" by linarith
    moreover have "(2::rat) ^ 24 * (2 ^ 24 * (1 + 1 / 2 ^ 53)) \<le> 2 ^ 64" by simp
    with Pup have "\<bar>P\<bar> \<le> 2 ^ 64" by linarith
    ultimately show ?thesis unfolding moderate_def by blast
  qed
  have err: "\<bar>pw - P\<bar> \<le> \<bar>P\<bar> / 2 ^ 53"
    using acc mdP unfolding fp_accurate_def pw_def P_def by blast
  have err2: "\<bar>pw - P\<bar> \<le> 2 ^ 24 * (2 ^ 24 * (1 + 1 / 2 ^ 53)) / 2 ^ 53"
  proof -
    have "\<bar>P\<bar> / 2 ^ 53 \<le> 2 ^ 24 * (2 ^ 24 * (1 + 1 / 2 ^ 53)) / 2 ^ 53"
      using Pup by (intro divide_right_mono) simp_all
    with err show ?thesis by linarith
  qed
  have fq: "\<bar>fdiv fp (of_int m) (of_int x) - q\<bar> \<le> 2 ^ 24 / 2 ^ 53"
    unfolding q_def using acc x m by (rule fdiv_close(2))
  have Xq: "X * q = of_int m" using x by (simp add: X_def q_def)
  have "P \<le> X * fdiv fp (of_int m) (of_int x)"
    unfolding P_def using own X0 by (intro mult_left_mono) simp_all
  also have "\<dots> = of_int m + X * (fdiv fp (of_int m) (of_int x) - q)"
    using Xq by (simp add: algebra_simps)
  also have "\<dots> \<le> of_int m + \<bar>X * (fdiv fp (of_int m) (of_int x) - q)\<bar>" by simp
  also have "\<bar>X * (fdiv fp (of_int m) (of_int x) - q)\<bar> = X * \<bar>fdiv fp (of_int m) (of_int x) - q\<bar>"
    using X0 by (simp add: abs_mult)
  finally have P1: "P \<le> of_int m + X * \<bar>fdiv fp (of_int m) (of_int x) - q\<bar>" by simp
  have "X * \<bar>fdiv fp (of_int m) (of_int x) - q\<bar> \<le> 2 ^ 24 * (2 ^ 24 / 2 ^ 53)"
    using XB fq X0 by (intro mult_mono) simp_all
  with P1 have P2: "P \<le> of_int m + 2 ^ 24 * (2 ^ 24 / 2 ^ 53)" by linarith
  have "pw \<le> P + \<bar>pw - P\<bar>" by linarith
  with P2 err2 have "pw \<le> of_int m + 2 ^ 24 * (2 ^ 24 / 2 ^ 53) +
      2 ^ 24 * (2 ^ 24 * (1 + 1 / 2 ^ 53)) / 2 ^ 53" by linarith
  moreover have "(2::rat) ^ 24 * (2 ^ 24 / 2 ^ 53) +
      2 ^ 24 * (2 ^ 24 * (1 + 1 / 2 ^ 53)) / 2 ^ 53 < 1 / 2" by simp
  ultimately have "pw < of_int m + 1 / 2" by linarith
  then show "\<lfloor>fmul fp (of_int x) sc + 1 / 2\<rfloor> \<le> m"
    unfolding pw_def X_def by (rule round_le)
  have r: "\<bar>of_int \<lfloor>pw + 1 / 2\<rfloor> - pw\<bar> \<le> 1 / 2" by (rule round_close)
  have "\<bar>P - X * s\<bar> = X * \<bar>sc - s\<bar>"
    using X0 by (simp add: P_def abs_mult right_diff_distrib[symmetric])
  also have "\<dots> \<le> 2 ^ 24 * (2 ^ 24 / 2 ^ 53)"
    using XB near X0 by (intro mult_mono) simp_all
  finally have d: "\<bar>P - X * s\<bar> \<le> 2 ^ 24 * (2 ^ 24 / 2 ^ 53)" .
  have "\<bar>of_int \<lfloor>pw + 1 / 2\<rfloor> - X * s\<bar> \<le>
      \<bar>of_int \<lfloor>pw + 1 / 2\<rfloor> - pw\<bar> + \<bar>pw - P\<bar> + \<bar>P - X * s\<bar>" by linarith
  with r err2 d have "\<bar>of_int \<lfloor>pw + 1 / 2\<rfloor> - X * s\<bar> \<le>
      1 / 2 + 2 ^ 24 * (2 ^ 24 * (1 + 1 / 2 ^ 53)) / 2 ^ 53 + 2 ^ 24 * (2 ^ 24 / 2 ^ 53)"
    by linarith
  moreover have "(1::rat) / 2 + 2 ^ 24 * (2 ^ 24 * (1 + 1 / 2 ^ 53)) / 2 ^ 53 +
      2 ^ 24 * (2 ^ 24 / 2 ^ 53) < 1" by simp
  ultimately show "\<bar>of_int \<lfloor>fmul fp (of_int x) sc + 1 / 2\<rfloor> - of_int x * s\<bar> < 1"
    unfolding pw_def X_def by linarith
qed

text \<open>
  The target dimensions for a source of \<open>w\<close> by \<open>h\<close> pixels and bounds \<open>mw\<close>, \<open>mh\<close>: two
  integers within the bounds, the source dimensions when the source fits, and each
  within one pixel of the source dimension times the common scale
  \<open>min (mw / w) (mh / h)\<close>.
\<close>

lemma min_close:
  fixes a b c d e :: rat
  assumes "\<bar>a - c\<bar> \<le> e" and "\<bar>b - d\<bar> \<le> e"
  shows "\<bar>min a b - min c d\<bar> \<le> e"
  using assms unfolding min_def by (cases "a \<le> b"; cases "c \<le> d"; simp; linarith)

lemma calculateDimensions_within:
  fixes w h mw mh :: int
  assumes acc: "fp_accurate fp"
    and w: "0 < w" "w \<le> 2 ^ 24" and h: "0 < h" "h \<le> 2 ^ 24"
    and mw: "\<bar>mw\<bar> \<le> 2 ^ 24" and mh: "\<bar>mh\<bar> \<le> 2 ^ 24"
  defines "s \<equiv> (if w \<le> mw \<and> h \<le> mh then 1
                  else min (of_int mw / of_int w) (of_int mh / of_int h) :: rat)"
  shows "\<exists>w' h'. calculateDimensions fp w h mw mh =
           \<lparr> width = Num (of_int w'), height = Num (of_int h') \<rparr> \<and>
         w' \<le> mw \<and> h' \<le> mh \<and>
         (w \<le> mw \<and> h \<le> mh \<longrightarrow> w' = w \<and> h' = h) \<and>
         \<bar>of_int w' - of_int w * s\<bar> < 1 \<and> \<bar>of_int h' - of_int h * s\<bar> < 1"
proof (cases "w \<le> mw \<and> h \<le> mh")
  case True
  then have "calculateDimensions fp w h mw mh =
      \<lparr> width = Num (of_int w), height = Num (of_int h) \<rparr>"
    by (simp add: calculateDimensions_def)
  with True show ?thesis by (intro exI[of _ w] exI[of _ h]) (simp add: s_def)
next
  case False
  define f1 where "f1 = fdiv fp (of_int mw) (of_int w)"
  define f2 where "f2 = fdiv fp (of_int mh) (of_int h)"
  define q1 :: rat where "q1 = of_int mw / of_int w"
  define q2 :: rat where "q2 = of_int mh / of_int h"
  define sc where "sc = min f1 f2"
  define w' where "w' = \<lfloor>fmul fp (of_int w) sc + 1 / 2\<rfloor>"
  define h' where "h' = \<lfloor>fmul fp (of_int h) sc + 1 / 2\<rfloor>"
  have s: "s = min q1 q2" using False unfolding s_def q1_def q2_def by auto
  have c: "calculateDimensions fp w h mw mh =
      \<lparr> width = Num (of_int w'), height = Num (of_int h') \<rparr>"
    using False w h
    by (auto simp add: calculateDimensions_def Let_def js_div_def f1_def f2_def sc_def w'_def h'_def)
  note a1 = fdiv_close[OF acc w mw, folded f1_def q1_def]
  note a2 = fdiv_close[OF acc h mh, folded f2_def q2_def]
  have own1: "sc \<le> fdiv fp (of_int mw) (of_int w)" by (simp add: sc_def f1_def)
  have own2: "sc \<le> fdiv fp (of_int mh) (of_int h)" by (simp add: sc_def f2_def)
  have size: "\<bar>sc\<bar> \<le> 2 ^ 24 * (1 + 1 / 2 ^ 53)"
    using a1(3) a2(3) by (simp add: sc_def min_def)
  have small: "sc = 0 \<or> (1 - 1 / 2 ^ 53) / 2 ^ 24 \<le> \<bar>sc\<bar>"
    using a1(4) a2(4) by (simp add: sc_def min_def)
  have near: "\<bar>sc - s\<bar> \<le> 2 ^ 24 / 2 ^ 53"
    unfolding sc_def s using a1(2) a2(2) by (rule min_close)
  note d1 = scaled_dimension[OF acc w mw own1 size small near, folded w'_def]
  note d2 = scaled_dimension[OF acc h mh own2 size small near, folded h'_def]
  from c d1 d2 False show ?thesis by (intro exI[of _ w'] exI[of _ h']) auto
qed

text \<open>
  C8. In every run of \<open>compress\<close> on a source of \<open>w\<close> by \<open>h\<close> pixels, each WebP
  transform is called with the dimensions computed against \<open>maxWidth\<close> and \<open>maxHeight\<close>,
  each AVIF transform with those computed against \<open>min maxWidth 1600\<close> and
  \<open>min maxHeight 1600\<close>. The computed dimensions are integers that do not exceed the
  respective bounds, equal the source dimensions when the source fits, and are each
  within one pixel of the source dimension times the common scale (the aspect ratio is
  kept up to rounding). Stated for pixel counts and bounds up to \<open>2\<^sup>2\<^sup>4\<close> and
  for any arithmetic within the relative error of a double.
\<close>

theorem compress_target_dimensions:
  "fp_accurate (arith env) \<and> getImageDimensions env bs = Inr (w, h) \<and>
   0 < w \<and> w \<le> 2 ^ 24 \<and> 0 < h \<and> h \<le> 2 ^ 24 \<and>
   opts = merge_options DEFAULT_OPTIONS options \<and>
   \<bar>maxWidth opts\<bar> \<le> 2 ^ 24 \<and> \<bar>maxHeight opts\<bar> \<le> 2 ^ 24 \<longrightarrow>
   (\<forall>v q d k. Transform v q d k \<in> set (fst (compress env bs format options)) \<longrightarrow>
      (let bw = (case v of WebP \<Rightarrow> maxWidth opts | AVIF \<Rightarrow> min (maxWidth opts) 1600);
           bh = (case v of WebP \<Rightarrow> maxHeight opts | AVIF \<Rightarrow> min (maxHeight opts) 1600);
           s = (if w \<le> bw \<and> h \<le> bh then 1
                else min (of_int bw / of_int w) (of_int bh / of_int h) :: rat)
       in d = calculateDimensions (arith env) w h bw bh \<and>
          (\<exists>w' h'. d = \<lparr> width = Num (of_int w'), height = Num (of_int h') \<rparr> \<and>
             w' \<le> bw \<and> h' \<le> bh \<and>
             (w \<le> bw \<and> h \<le> bh \<longrightarrow> w' = w \<and> h' = h) \<and>
             \<bar>of_int w' - of_int w * s\<bar> < 1 \<and> \<bar>of_int h' - of_int h * s\<bar> < 1)))"
proof (intro impI allI)
  fix v q d k
  assume a: "fp_accurate (arith env) \<and> getImageDimensions env bs = Inr (w, h) \<and>
   0 < w \<and> w \<le> 2 ^ 24 \<and> 0 < h \<and> h \<le> 2 ^ 24 \<and>
   opts = merge_options DEFAULT_OPTIONS options \<and>
   \<bar>maxWidth opts\<bar> \<le> 2 ^ 24 \<and> \<bar>maxHeight opts\<bar> \<le> 2 ^ 24"
  assume t: "Transform v q d k \<in> set (fst (compress env bs format options))"
  from a have acc: "fp_accurate (arith env)" and dims: "getImageDimensions env bs = Inr (w, h)"
    and w: "0 < w" "w \<le> 2 ^ 24" and h: "0 < h" "h \<le> 2 ^ 24"
    and opts: "opts = merge_options DEFAULT_OPTIONS options"
    and mw: "\<bar>maxWidth opts\<bar> \<le> 2 ^ 24" and mh: "\<bar>maxHeight opts\<bar> \<le> 2 ^ 24"
    by blast+
  define bw where "bw = (case v of WebP \<Rightarrow> maxWidth opts | AVIF \<Rightarrow> min (maxWidth opts) 1600)"
  define bh where "bh = (case v of WebP \<Rightarrow> maxHeight opts | AVIF \<Rightarrow> min (maxHeight opts) 1600)"
  have na: "\<not> (format = ''gif'' \<and> isAnimatedGif bs \<and>
      preserveAnimation (merge_options DEFAULT_OPTIONS options))"
  proof
    assume "format = ''gif'' \<and> isAnimatedGif bs \<and>
      preserveAnimation (merge_options DEFAULT_OPTIONS options)"
    then have "fst (compress env bs format options) = []" by (simp add: compress_animated)
    with t show False by simp
  qed
  note run = compress_run[OF na dims opts refl refl refl refl]
  have d: "d = calculateDimensions (arith env) w h bw bh"
    using t unfolding run bw_def bh_def
    by (cases v) (auto simp add: transform_in_tag_events split: if_splits)
  have bwb: "\<bar>bw\<bar> \<le> 2 ^ 24" using mw by (cases v) (auto simp add: bw_def min_def)
  have bhb: "\<bar>bh\<bar> \<le> 2 ^ 24" using mh by (cases v) (auto simp add: bh_def min_def)
  from calculateDimensions_within[OF acc w h bwb bhb] d
  show "let bw = (case v of WebP \<Rightarrow> maxWidth opts | AVIF \<Rightarrow> min (maxWidth opts) 1600);
           bh = (case v of WebP \<Rightarrow> maxHeight opts | AVIF \<Rightarrow> min (maxHeight opts) 1600);
           s = (if w \<le> bw \<and> h \<le> bh then 1
                else min (of_int bw / of_int w) (of_int bh / of_int h) :: rat)
       in d = calculateDimensions (arith env) w h bw bh \<and>
          (\<exists>w' h'. d = \<lparr> width = Num (of_int w'), height = Num (of_int h') \<rparr> \<and>
             w' \<le> bw \<and> h' \<le> bh \<and>
             (w \<le> bw \<and> h \<le> bh \<longrightarrow> w' = w \<and> h' = h) \<and>
             \<bar>of_int w' - of_int w * s\<bar> < 1 \<and> \<bar>of_int h' - of_int h * s\<bar> < 1)"
    unfolding Let_def bw_def[symmetric] bh_def[symmetric] by simp
qed

theorem compress_target_dimensions_witness:
  "fp_accurate (arith example_env) \<and>
   getImageDimensions example_env example_image = Inr (4000, 3000) \<and>
   \<bar>maxWidth (merge_options DEFAULT_OPTIONS no_options)\<bar> \<le> 2 ^ 24 \<and>
   \<bar>maxHeight (merge_options DEFAULT_OPTIONS no_options)\<bar> \<le> 2 ^ 24 \<and>
   Transform WebP 90 \<lparr>width = Num 3840, height = Num 2880\<rparr> 1
     \<in> set (fst (compress example_env example_image ''jpeg'' no_options)) \<and>
   Transform AVIF 90 \<lparr>width = Num 1600, height = Num 1200\<rparr> 1
     \<in> set (fst (compress example_env example_image ''jpeg'' no_options)) \<and>
   \<lparr>width = Num 3840, height = Num 2880\<rparr> = calculateDimensions (arith example_env) 4000 3000
     (maxWidth (merge_options DEFAULT_OPTIONS no_options))
     (maxHeight (merge_options DEFAULT_OPTIONS no_options)) \<and>
   \<lparr>width = Num 1600, height = Num 1200\<rparr> = calculateDimensions (arith example_env) 4000 3000
     (min (maxWidth (merge_options DEFAULT_OPTIONS no_options)) 1600)
     (min (maxHeight (merge_options DEFAULT_OPTIONS no_options)) 1600)"
proof -
  let ?opts = "merge_options DEFAULT_OPTIONS no_options"
  have acc: "fp_accurate (arith example_env)"
    by (simp add: example_env_def exact_ops_accurate)
  have dims: "getImageDimensions example_env example_image = Inr (4000, 3000)"
    by (simp add: example_env_def)
  have mw: "\<bar>maxWidth ?opts\<bar> \<le> 2 ^ 24" by code_simp
  have mh: "\<bar>maxHeight ?opts\<bar> \<le> 2 ^ 24" by code_simp
  have hyp: "fp_accurate (arith example_env) \<and>
      getImageDimensions example_env example_image = Inr (4000, 3000) \<and>
      0 < (4000::int) \<and> (4000::int) \<le> 2 ^ 24 \<and> 0 < (3000::int) \<and> (3000::int) \<le> 2 ^ 24 \<and>
      ?opts = merge_options DEFAULT_OPTIONS no_options \<and>
      \<bar>maxWidth ?opts\<bar> \<le> 2 ^ 24 \<and> \<bar>maxHeight ?opts\<bar> \<le> 2 ^ 24"
    using acc dims mw mh by simp
  note t = compress_target_dimensions[where env = example_env and bs = example_image
      and w = 4000 and h = 3000 and opts = "?opts" and options = no_options
      and format = "''jpeg''", rule_format, OF hyp, unfolded Let_def]
  have m1: "Transform WebP 90 \<lparr>width = Num 3840, height = Num 2880\<rparr> 1
     \<in> set (fst (compress example_env example_image ''jpeg'' no_options))" by code_simp
  have m2: "Transform AVIF 90 \<lparr>width = Num 1600, height = Num 1200\<rparr> 1
     \<in> set (fst (compress example_env example_image ''jpeg'' no_options))" by code_simp
  from t[OF m1] have d1: "\<lparr>width = Num 3840, height = Num 2880\<rparr> =
      calculateDimensions (arith example_env) 4000 3000 (maxWidth ?opts) (maxHeight ?opts)"
    by simp
  from t[OF m2] have d2: "\<lparr>width = Num 1600, height = Num 1200\<rparr> =
      calculateDimensions (arith example_env) 4000 3000
        (min (maxWidth ?opts) 1600) (min (maxHeight ?opts) 1600)"
    by simp
  from acc dims mw mh m1 m2 d1 d2 show ?thesis by blast
qed

end
